theory Spec2Isabelle
  imports Main "HOL-Library.Sublist"
begin

section \<open>Endpoint records\<close>

text \<open>
  The scraper passes endpoints around as Python dictionaries. Both extractors build them
  with a dictionary literal, so the set of keys is fixed: the six keys below are common,
  \<open>extract_endpoint_from_section\<close> (canvas_scraper.py) adds \<open>example_request\<close> and
  \<open>example_response\<close>, \<open>parse_api_method\<close> (scraper_utils.py) adds \<open>example\<close>.
  Strings are lists of characters; one \<open>char\<close> stands for one code point below 256.
\<close>

record param =
  param_name :: string
  param_type :: string
  param_description :: string

record endpoint =
  resource :: string
  name :: string
  http_method :: string
  path :: string
  description :: string
  parameters :: "param list"

record canvas_endpoint = endpoint +
  example_request :: string
  example_response :: string

record method_endpoint = endpoint +
  example :: "string option"

text \<open>The values stored under the common keys, and Python's truth value of each.\<close>

datatype pyval = Str string | ParamList "param list"

fun truthy :: "pyval \<Rightarrow> bool" where
  "truthy (Str s) = (s \<noteq> [])"
| "truthy (ParamList ps) = (ps \<noteq> [])"

definition endpoint_items :: "'a endpoint_scheme \<Rightarrow> (string \<times> pyval) list" where
  "endpoint_items e =
     [(''resource'', Str (resource e)),
      (''name'', Str (name e)),
      (''http_method'', Str (http_method e)),
      (''path'', Str (path e)),
      (''description'', Str (description e)),
      (''parameters'', ParamList (parameters e))]"

section \<open>config.py\<close>

definition REQUIRED_KEYS :: "string list" where
  "REQUIRED_KEYS = [''resource'', ''name'', ''http_method'', ''path'', ''description'']"

section \<open>Python strings\<close>

text \<open>
  Whitespace as \<open>str.strip()\<close>, \<open>str.isspace()\<close> and the pattern \<open>\s\<close> see it, and word
  characters as the pattern \<open>\w\<close> sees them, for code points below 256.
\<close>

definition is_space :: "char \<Rightarrow> bool" where
  "is_space c \<longleftrightarrow> (of_char c :: nat) \<in> set [9, 10, 11, 12, 13, 28, 29, 30, 31, 32, 133, 160]"

definition is_word :: "char \<Rightarrow> bool" where
  "is_word c \<longleftrightarrow>
     (let k = (of_char c :: nat) in
        (48 \<le> k \<and> k \<le> 57) \<or> (65 \<le> k \<and> k \<le> 90) \<or> k = 95 \<or> (97 \<le> k \<and> k \<le> 122) \<or>
        k = 170 \<or> k = 178 \<or> k = 179 \<or> k = 181 \<or> k = 185 \<or> k = 186 \<or>
        (188 \<le> k \<and> k \<le> 190) \<or> (192 \<le> k \<and> k \<le> 214) \<or> (216 \<le> k \<and> k \<le> 246) \<or>
        248 \<le> k)"

text \<open>\<open>s.strip()\<close>\<close>

definition py_strip :: "string \<Rightarrow> string" where
  "py_strip s = rev (dropWhile is_space (rev (dropWhile is_space s)))"

text \<open>\<open>sub in s\<close>\<close>

fun contains :: "string \<Rightarrow> string \<Rightarrow> bool" where
  "contains sub [] = (sub = [])"
| "contains sub (c # cs) = (prefix sub (c # cs) \<or> contains sub cs)"

text \<open>
  \<open>s.split(sep)\<close>, scanning left to right for non-overlapping occurrences of \<open>sep\<close>; \<open>acc\<close>
  is the piece read so far. The source only splits on the constants "Scope:" and "/"
  (an empty separator, where Python raises, does not occur).
\<close>

fun split_acc :: "string \<Rightarrow> string \<Rightarrow> string \<Rightarrow> string list" where
  "split_acc sep acc [] = [acc]"
| "split_acc sep acc (c # cs) =
     (if sep \<noteq> [] \<and> prefix sep (c # cs)
      then acc # split_acc sep [] (drop (length sep - 1) cs)
      else split_acc sep (acc @ [c]) cs)"

definition py_split :: "string \<Rightarrow> string \<Rightarrow> string list" where
  "py_split s sep = split_acc sep [] s"

text \<open>\<open>s.replace(old, "")\<close>; with an empty \<open>old\<close> Python returns \<open>s\<close> as well.\<close>

fun py_remove :: "string \<Rightarrow> string \<Rightarrow> string" where
  "py_remove old [] = []"
| "py_remove old (c # cs) =
     (if old \<noteq> [] \<and> prefix old (c # cs)
      then py_remove old (drop (length old - 1) cs)
      else c # py_remove old cs)"

text \<open>\<open>s.find(c)\<close> for a one-character \<open>c\<close>: the first index, or -1.\<close>

definition py_find :: "string \<Rightarrow> char \<Rightarrow> int" where
  "py_find s c = (if c \<in> set s then int (length (takeWhile (\<lambda>x. x \<noteq> c) s)) else - 1)"

section \<open>The regular expressions of the source\<close>

text \<open>
  \<open>\s+(/[^\s]+)\<close> read at the start of \<open>s\<close>: the captured path. Both repetitions are
  greedy, and neither can give characters back to what follows.
\<close>

definition path_strict :: "string \<Rightarrow> string option" where
  "path_strict s =
     (if takeWhile is_space s = [] then None
      else case dropWhile is_space s of
             [] \<Rightarrow> None
           | c # r \<Rightarrow>
               if c = CHR ''/'' \<and> takeWhile (\<lambda>x. \<not> is_space x) r \<noteq> []
               then Some (c # takeWhile (\<lambda>x. \<not> is_space x) r)
               else None)"

text \<open>\<open>\s+([\/\w\.\-]+)\<close> read at the start of \<open>s\<close>.\<close>

definition loose_char :: "char \<Rightarrow> bool" where
  "loose_char c \<longleftrightarrow> c = CHR ''/'' \<or> is_word c \<or> c = CHR ''.'' \<or> c = CHR ''-''"

definition path_loose :: "string \<Rightarrow> string option" where
  "path_loose s =
     (if takeWhile is_space s = [] then None
      else if takeWhile loose_char (dropWhile is_space s) = [] then None
      else Some (takeWhile loose_char (dropWhile is_space s)))"

text \<open>
  \<open>(M1|M2|...)\<close> followed by a path pattern, read at the start of \<open>s\<close>: the alternatives
  are tried in order, and the next one is tried when the rest fails.
\<close>

fun method_then :: "string list \<Rightarrow> (string \<Rightarrow> string option) \<Rightarrow> string \<Rightarrow> (string \<times> string) option" where
  "method_then [] rest s = None"
| "method_then (m # ms) rest s =
     (if prefix m s
      then case rest (drop (length m) s) of
             Some p \<Rightarrow> Some (m, p)
           | None \<Rightarrow> method_then ms rest s
      else method_then ms rest s)"

text \<open>\<open>re.search\<close>: the match at the leftmost position that has one.\<close>

fun re_search :: "(string \<Rightarrow> 'a option) \<Rightarrow> string \<Rightarrow> 'a option" where
  "re_search pat [] = pat []"
| "re_search pat (c # cs) =
     (case pat (c # cs) of Some r \<Rightarrow> Some r | None \<Rightarrow> re_search pat cs)"

definition canvas_methods :: "string list" where
  "canvas_methods = [''GET'', ''POST'', ''PUT'', ''DELETE'']"

definition api_methods :: "string list" where
  "api_methods = [''GET'', ''POST'', ''PUT'', ''DELETE'', ''PATCH'']"

text \<open>\<open>re.match(r"(GET|POST|PUT|DELETE)\s+(/[^\s]+)", http_path)\<close>\<close>

definition match_http_path :: "string \<Rightarrow> (string \<times> string) option" where
  "match_http_path http_path = method_then canvas_methods path_strict http_path"

text \<open>
  \<open>re.search(r"(GET|POST|PUT|DELETE|PATCH)\s+(/[^\s]+)", method_text)\<close> and, when that
  finds nothing, \<open>re.search(r"(GET|POST|PUT|DELETE|PATCH)\s+([\/\w\.\-]+)", method_text)\<close>.
\<close>

definition search_method_text :: "string \<Rightarrow> (string \<times> string) option" where
  "search_method_text method_text =
     (case re_search (method_then api_methods path_strict) method_text of
        Some m \<Rightarrow> Some m
      | None \<Rightarrow> re_search (method_then api_methods path_loose) method_text)"

text \<open>
  \<open>(.*?)</code>\<close> read at the start of \<open>s\<close>: the shortest run of characters other than
  newline that is followed by the closing tag.
\<close>

fun code_body :: "string \<Rightarrow> string option" where
  "code_body [] = None"
| "code_body (c # cs) =
     (if prefix ''</code>'' (c # cs) then Some []
      else if c = CHR 0x0A then None
      else map_option (Cons c) (code_body cs))"

text \<open>\<open>re.search(r"<code>(.*?)</code>", s)\<close>: group 1 of the leftmost match.\<close>

definition search_code :: "string \<Rightarrow> string option" where
  "search_code s =
     re_search (\<lambda>t. if prefix ''<code>'' t then code_body (drop 6 t) else None) s"

section \<open>The parsed document\<close>

text \<open>
  The HTML parser is a library; the model starts from the tree it returns. A node is a
  string of text, a comment (or another string that \<open>get_text\<close> leaves out, such as a
  declaration), or a tag with its name, attributes and contents. An element handle is the
  node together with its position, the list of child indices leading to it from the root.
\<close>

datatype node = Text string | Comment string | Tag string "(string \<times> string) list" "node list"

type_synonym position = "nat list"
type_synonym element = "position \<times> node"

text \<open>\<open>BeautifulSoup(html_content, "html.parser")\<close>, given the parsed top-level nodes.\<close>

definition BeautifulSoup :: "node list \<Rightarrow> node" where
  "BeautifulSoup html = Tag ''[document]'' [] html"

fun is_named :: "string \<Rightarrow> node \<Rightarrow> bool" where
  "is_named nm (Text s) = False"
| "is_named nm (Comment s) = False"
| "is_named nm (Tag n attrs cs) = (n = nm)"

text \<open>Every node below (and including) a node, in document order, with its position.\<close>

fun document_order :: "position \<Rightarrow> node \<Rightarrow> element list"
  and children_order :: "position \<Rightarrow> nat \<Rightarrow> node list \<Rightarrow> element list" where
  "document_order p (Text s) = [(p, Text s)]"
| "document_order p (Comment s) = [(p, Comment s)]"
| "document_order p (Tag n attrs cs) = (p, Tag n attrs cs) # children_order p 0 cs"
| "children_order p i [] = []"
| "children_order p i (c # cs) = document_order (p @ [i]) c @ children_order p (Suc i) cs"

text \<open>\<open>element.next_elements\<close>: everything after the element in document order.\<close>

definition next_elements :: "node \<Rightarrow> position \<Rightarrow> element list" where
  "next_elements soup p = drop 1 (dropWhile (\<lambda>e. fst e \<noteq> p) (document_order [] soup))"

text \<open>\<open>element.find_next(...)\<close>: the first tag after the element that passes the test.\<close>

definition find_next :: "node \<Rightarrow> position \<Rightarrow> (node \<Rightarrow> bool) \<Rightarrow> element option" where
  "find_next soup p test = List.find (\<lambda>e. test (snd e)) (next_elements soup p)"

text \<open>\<open>tag.descendants\<close>, \<open>tag.find_all(name)\<close> and \<open>tag.find(name)\<close>.\<close>

definition descendants :: "node \<Rightarrow> node list" where
  "descendants n = map snd (drop 1 (document_order [] n))"

definition find_all :: "node \<Rightarrow> string \<Rightarrow> node list" where
  "find_all n nm = filter (is_named nm) (descendants n)"

definition find_tag :: "node \<Rightarrow> string \<Rightarrow> node option" where
  "find_tag n nm = List.find (is_named nm) (descendants n)"

text \<open>The node at a position, and \<open>element.parent\<close> (the root has none).\<close>

fun node_at :: "node \<Rightarrow> position \<Rightarrow> node option" where
  "node_at n [] = Some n"
| "node_at n (i # p) =
     (case n of
        Text s \<Rightarrow> None
      | Comment s \<Rightarrow> None
      | Tag nm attrs cs \<Rightarrow> if i < length cs then node_at (cs ! i) p else None)"

definition parent :: "node \<Rightarrow> position \<Rightarrow> node option" where
  "parent soup p = (if p = [] then None else node_at soup (butlast p))"

text \<open>\<open>element.next_sibling\<close> and those after it, in order.\<close>

definition next_siblings :: "node \<Rightarrow> position \<Rightarrow> node list" where
  "next_siblings soup p =
     (case parent soup p of
        Some (Tag nm attrs cs) \<Rightarrow> drop (Suc (last p)) cs
      | _ \<Rightarrow> [])"

text \<open>The strings below a node in document order; \<open>tag.text\<close>; \<open>tag.get_text(strip=True)\<close>.\<close>

fun strings :: "node \<Rightarrow> string list" where
  "strings (Text s) = [s]"
| "strings (Comment s) = []"
| "strings (Tag n attrs cs) = concat (map strings cs)"

definition text_of :: "node \<Rightarrow> string" where
  "text_of n = concat (strings n)"

definition get_text_strip :: "node \<Rightarrow> string" where
  "get_text_strip n = concat (filter (\<lambda>s. s \<noteq> []) (map py_strip (strings n)))"

text \<open>\<open>tag.get(key)\<close>\<close>

fun get_attr :: "node \<Rightarrow> string \<Rightarrow> string option" where
  "get_attr (Text s) key = None"
| "get_attr (Comment s) key = None"
| "get_attr (Tag n attrs cs) key = map_of attrs key"

text \<open>\<open>soup.select("div > div > h2")\<close>\<close>

definition select_div_div_h2 :: "node \<Rightarrow> element list" where
  "select_div_div_h2 soup =
     filter (\<lambda>e. is_named ''h2'' (snd e) \<and>
                 (case parent soup (fst e) of
                    None \<Rightarrow> False
                  | Some d \<Rightarrow> is_named ''div'' d \<and>
                      (case parent soup (butlast (fst e)) of
                         None \<Rightarrow> False
                       | Some d' \<Rightarrow> is_named ''div'' d')))
       (document_order [] soup)"

section \<open>utils/canvas\_scraper.py\<close>

text \<open>The loop over the rows of the parameter table.\<close>

fun param_rows :: "node list \<Rightarrow> param list" where
  "param_rows [] = []"
| "param_rows (row # rows) =
     (let cells = find_all row ''td'' in
        if length cells \<ge> 3
        then \<lparr>param_name = get_text_strip (cells ! 0), param_type = get_text_strip (cells ! 1),
              param_description = get_text_strip (cells ! 2)\<rparr> # param_rows rows
        else param_rows rows)"

text \<open>The text of the \<open>pre\<close> block after the first \<open>h4\<close> whose text contains the marker.\<close>

definition find_example :: "node \<Rightarrow> position \<Rightarrow> string \<Rightarrow> string" where
  "find_example soup p marker =
     (case find_next soup p (\<lambda>tag. is_named ''h4'' tag \<and> contains marker (text_of tag)) of
        None \<Rightarrow> []
      | Some header \<Rightarrow>
          (case find_next soup (fst header) (is_named ''pre'') of
             None \<Rightarrow> []
           | Some code_block \<Rightarrow> get_text_strip (snd code_block)))"

definition section_name :: "node \<Rightarrow> string" where
  "section_name section = (case find_tag section ''a'' of
                             None \<Rightarrow> []
                           | Some a_tag \<Rightarrow> get_text_strip a_tag)"

definition extract_endpoint_from_section :: "node \<Rightarrow> element \<Rightarrow> string \<Rightarrow> canvas_endpoint option" where
  "extract_endpoint_from_section soup section resource_name =
     (if section_name (snd section) = [] then None
      else case find_next soup (fst section) (is_named ''h3'') of
        None \<Rightarrow> None
      | Some h3 \<Rightarrow>
          (case match_http_path (get_text_strip (snd h3)) of
             None \<Rightarrow> None
           | Some (method, pth) \<Rightarrow>
               Some \<lparr>resource = resource_name,
                     name = section_name (snd section),
                     http_method = method,
                     path = pth,
                     description =
                       (case find_next soup (fst h3) (is_named ''p'') of
                          None \<Rightarrow> []
                        | Some p_tag \<Rightarrow> get_text_strip (snd p_tag)),
                     parameters =
                       (case find_next soup (fst section) (is_named ''table'') of
                          None \<Rightarrow> []
                        | Some params_table \<Rightarrow>
                            param_rows (drop 1 (find_all (snd params_table) ''tr''))),
                     example_request = find_example soup (fst section) ''Example Request'',
                     example_response = find_example soup (fst section) ''Example Response''\<rparr>))"

definition parse_canvas_api_page :: "node list \<Rightarrow> string \<Rightarrow> canvas_endpoint list" where
  "parse_canvas_api_page html_content resource_name =
     (let soup = BeautifulSoup html_content in
        List.map_filter (\<lambda>section. extract_endpoint_from_section soup section resource_name)
          (select_div_div_h2 soup))"

section \<open>utils/scraper\_utils.py\<close>

datatype py_error = AttributeError

text \<open>
  The loop \<open>for _ in range(10)\<close> over the siblings after the heading: it stops at the end
  of the siblings and at a falsy one (an empty string), and returns the text of the first
  \<open>p\<close> or \<open>div\<close> whose stripped text is longer than 10 characters.
\<close>

fun scan_siblings :: "nat \<Rightarrow> node list \<Rightarrow> string option" where
  "scan_siblings 0 siblings = None"
| "scan_siblings (Suc k) [] = None"
| "scan_siblings (Suc k) (current # rest) =
     (if current = Text [] \<or> current = Comment [] then None
      else if (is_named ''p'' current \<or> is_named ''div'' current) \<and>
              get_text_strip current \<noteq> [] \<and> length (get_text_strip current) > 10
      then Some (get_text_strip current)
      else scan_siblings k rest)"

text \<open>
  The description before the length limit: the sibling scan, else the \<open>title\<close>
  attribute, else the parent's text without the heading's text, else a generic sentence.
  Reading \<open>.parent.get_text\<close> on an element without a parent raises.
\<close>

definition raw_description :: "node \<Rightarrow> element \<Rightarrow> string \<Rightarrow> string \<Rightarrow> py_error + string" where
  "raw_description soup method_element method_text pth =
     (let found = scan_siblings 10 (next_siblings soup (fst method_element));
          title = (case get_attr (snd method_element) ''title'' of None \<Rightarrow> [] | Some t \<Rightarrow> t);
          description = (case found of
                           Some text \<Rightarrow> text
                         | None \<Rightarrow> if title \<noteq> [] then title else [])
      in if description \<noteq> [] then Inr description
         else case parent soup (fst method_element) of
                None \<Rightarrow> Inl AttributeError
              | Some par \<Rightarrow>
                  (let parent_text = get_text_strip par;
                       description =
                         (if parent_text \<noteq> [] \<and> parent_text \<noteq> method_text
                          then py_strip (py_remove method_text parent_text) else [])
                   in Inr (if description = [] then ''API endpoint for '' @ pth
                           else description)))"

text \<open>\<open>description[:500] + "..." if len(description) > 500 else description\<close>\<close>

definition limit_description :: "string \<Rightarrow> string" where
  "limit_description d = (if length d > 500 then take 500 d @ ''...'' else d)"

text \<open>The name taken from the path.\<close>

definition name_from_path :: "string \<Rightarrow> string \<Rightarrow> string \<Rightarrow> string" where
  "name_from_path method pth resource_name =
     (let name_parts = py_split pth ''/'';
          nm = (if name_parts \<noteq> [] \<and> last name_parts \<noteq> [] then last name_parts else pth)
      in if nm = [] \<or> nm = ''/'' then method @ '' '' @ resource_name @ '' endpoint'' else nm)"

definition parse_api_method :: "node \<Rightarrow> element \<Rightarrow> string \<Rightarrow> py_error + method_endpoint option" where
  "parse_api_method soup method_element resource_name =
     (let method_text = get_text_strip (snd method_element) in
        case search_method_text method_text of
          None \<Rightarrow> Inr None
        | Some (method, pth) \<Rightarrow>
            (case raw_description soup method_element method_text pth of
               Inl err \<Rightarrow> Inl err
             | Inr d \<Rightarrow>
                 Inr (Some \<lparr>resource = resource_name,
                            name = name_from_path method pth resource_name,
                            http_method = method,
                            path = pth,
                            description = limit_description d,
                            parameters = [],
                            example = None\<rparr>)))"

section \<open>utils/data\_utils.py\<close>

definition extract_scope :: "'a endpoint_scheme \<Rightarrow> string" where
  "extract_scope endpoint =
     (if contains ''Scope:'' (description endpoint)
      then let scope_parts = py_split (description endpoint) ''Scope:'' in
        if length scope_parts > 1
        then case search_code (scope_parts ! 1) of
               Some code \<Rightarrow> code
             | None \<Rightarrow>
                 (let dot = py_find (scope_parts ! 1) (CHR ''.'');
                      end_pos = (if dot = - 1 then py_find (scope_parts ! 1) (CHR 0x0A) else dot)
                  in if end_pos = - 1 then py_strip (scope_parts ! 1)
                     else py_strip (take (nat end_pos) (scope_parts ! 1)))
        else []
      else [])"

record csv_row =
  row_resource :: string
  row_name :: string
  row_http_method :: string
  row_path :: string
  row_description :: string
  row_scope :: string
  row_parameter_count :: nat

definition csv_row_of :: "'a endpoint_scheme \<Rightarrow> csv_row" where
  "csv_row_of endpoint =
     \<lparr>row_resource = resource endpoint,
      row_name = name endpoint,
      row_http_method = http_method endpoint,
      row_path = path endpoint,
      row_description =
        (if length (description endpoint) > 200 then take 200 (description endpoint) @ ''...''
         else description endpoint),
      row_scope = extract_scope endpoint,
      row_parameter_count = length (parameters endpoint)\<rparr>"

text \<open>The rows written after the header; nothing is written for an empty list.\<close>

definition save_endpoints_to_csv :: "'a endpoint_scheme list \<Rightarrow> csv_row list option" where
  "save_endpoints_to_csv endpoints =
     (if endpoints = [] then None else Some (map csv_row_of endpoints))"

section \<open>main.py\<close>

record 'a crawl_state =
  seen_endpoint_ids :: "string set"
  all_endpoints :: "'a endpoint_scheme list"

definition init_state :: "'a crawl_state" where
  "init_state = \<lparr>seen_endpoint_ids = {}, all_endpoints = []\<rparr>"

text \<open>\<open>f"{endpoint['resource']}_{endpoint['http_method']}_{endpoint['path']}"\<close>\<close>

definition endpoint_id :: "'a endpoint_scheme \<Rightarrow> string" where
  "endpoint_id e = resource e @ ''_'' @ http_method e @ ''_'' @ path e"

text \<open>\<open>all(key in endpoint and endpoint[key] for key in REQUIRED_KEYS)\<close>\<close>

definition has_required :: "'a endpoint_scheme \<Rightarrow> bool" where
  "has_required e =
     list_all (\<lambda>key. case map_of (endpoint_items e) key of
                        None \<Rightarrow> False
                      | Some v \<Rightarrow> truthy v) REQUIRED_KEYS"

text \<open>The body of the inner loop, for one endpoint.\<close>

definition process_endpoint :: "'a crawl_state \<Rightarrow> 'a endpoint_scheme \<Rightarrow> 'a crawl_state" where
  "process_endpoint st e =
     (if endpoint_id e \<in> seen_endpoint_ids st then st
      else if \<not> has_required e then st
      else \<lparr>seen_endpoint_ids = insert (endpoint_id e) (seen_endpoint_ids st),
            all_endpoints = all_endpoints st @ [e]\<rparr>)"

text \<open>The inner loop over the endpoints extracted from one page.\<close>

fun process_batch :: "'a crawl_state \<Rightarrow> 'a endpoint_scheme list \<Rightarrow> 'a crawl_state" where
  "process_batch st [] = st"
| "process_batch st (e # es) = process_batch (process_endpoint st e) es"

text \<open>The outer loop, given the batch extracted from each page in turn.\<close>

fun process_batches :: "'a crawl_state \<Rightarrow> 'a endpoint_scheme list list \<Rightarrow> 'a crawl_state" where
  "process_batches st [] = st"
| "process_batches st (b # bs) = process_batches (process_batch st b) bs"

text \<open>The states the two loops can be in: the start, and any state after one more endpoint.\<close>

inductive reachable :: "'a crawl_state \<Rightarrow> bool" where
  start: "reachable init_state"
| step: "reachable st \<Longrightarrow> reachable (process_endpoint st e)"

definition identity :: "'a endpoint_scheme \<Rightarrow> string \<times> string \<times> string" where
  "identity e = (resource e, http_method e, path e)"

text \<open>What the page fetcher returned for a resource: the parsed page, or an error message.\<close>

datatype fetch_result = Fetched "node list" | Failed string

type_synonym canvas_state = "unit canvas_endpoint_ext crawl_state"

text \<open>
  The loop over the resources, given for each its name and what the fetcher returned
  (the names come from the configured links; a failed fetch is skipped).
\<close>

fun crawl_pages :: "canvas_state \<Rightarrow> (string \<times> fetch_result) list \<Rightarrow> canvas_state" where
  "crawl_pages st [] = st"
| "crawl_pages st ((resource_name, Failed msg) # rest) = crawl_pages st rest"
| "crawl_pages st ((resource_name, Fetched html) # rest) =
     crawl_pages (process_batch st (parse_canvas_api_page html resource_name)) rest"

record outputs =
  csv_file :: "csv_row list option"
  json_file :: "canvas_endpoint list option"

definition crawl_canvas_api :: "(string \<times> fetch_result) list \<Rightarrow> outputs" where
  "crawl_canvas_api pages =
     (let all = all_endpoints (crawl_pages init_state pages) in
        if all \<noteq> [] then \<lparr>csv_file = save_endpoints_to_csv all, json_file = Some all\<rparr>
        else \<lparr>csv_file = None, json_file = None\<rparr>)"

text \<open>
  Specification predicate, not code: position \<open>i\<close> of the candidate sequence \<open>es\<close> holds a
  candidate that passes the required-field check, whose key is new to the state \<open>st\<close>, and
  no earlier candidate that passes the check has the same key.
\<close>

definition first_seen_valid :: "'a crawl_state \<Rightarrow> 'a endpoint_scheme list \<Rightarrow> nat \<Rightarrow> bool" where
  "first_seen_valid st es i \<longleftrightarrow>
     has_required (es ! i) \<and> endpoint_id (es ! i) \<notin> seen_endpoint_ids st \<and>
     (\<forall>j<i. has_required (es ! j) \<longrightarrow> endpoint_id (es ! j) \<noteq> endpoint_id (es ! i))"

text \<open>
  Specification predicate, not code: the leftmost occurrence of \<open>sub\<close> in \<open>s\<close> starts at
  position \<open>k\<close>.
\<close>

definition first_at :: "string \<Rightarrow> nat \<Rightarrow> string \<Rightarrow> bool" where
  "first_at sub k s \<longleftrightarrow>
     prefix sub (drop k s) \<and> list_all (\<lambda>i. \<not> prefix sub (drop i s)) [0..<k]"

text \<open>Sample candidates.\<close>

definition blank_endpoint :: canvas_endpoint where
  "blank_endpoint =
     \<lparr>resource = ''Users'', name = ''List users'', http_method = ''GET'', path = ''/api/v1/users'',
      description = [], parameters = [], example_request = [], example_response = []\<rparr>"

definition users_endpoint :: canvas_endpoint where
  "users_endpoint = blank_endpoint\<lparr>description := ''Lists users.''\<rparr>"

definition courses_endpoint :: canvas_endpoint where
  "courses_endpoint =
     \<lparr>resource = ''Courses'', name = ''List courses'', http_method = ''GET'',
      path = ''/api/v1/courses'', description = ''Lists courses.'', parameters = [],
      example_request = [], example_response = []\<rparr>"

definition collide_a :: canvas_endpoint where
  "collide_a =
     \<lparr>resource = ''A'', name = ''first'', http_method = ''GET'', path = ''/x_POST_/y'',
      description = ''one'', parameters = [], example_request = [], example_response = []\<rparr>"

definition collide_b :: canvas_endpoint where
  "collide_b =
     \<lparr>resource = ''A_GET_/x'', name = ''second'', http_method = ''POST'', path = ''/y'',
      description = ''two'', parameters = [], example_request = [], example_response = []\<rparr>"

section \<open>Sample pages, as parsed\<close>

definition td :: "string \<Rightarrow> node" where
  "td s = Tag ''td'' [] [Text s]"

definition header_row :: node where
  "header_row = Tag ''tr'' [] [Tag ''th'' [] [Text ''Parameter''], Tag ''th'' [] [Text ''Type''],
                               Tag ''th'' [] [Text ''Description'']]"

definition two_rows :: "node list" where
  "two_rows =
     [Tag ''tr'' [] [td ''id'', td ''integer'', td ''The user id.''],
      Tag ''tr'' [] [td ''name'', td ''string'', td ''The user name.'']]"

definition two_params :: "param list" where
  "two_params =
     [\<lparr>param_name = ''id'', param_type = ''integer'', param_description = ''The user id.''\<rparr>,
      \<lparr>param_name = ''name'', param_type = ''string'', param_description = ''The user name.''\<rparr>]"

definition link_heading :: node where
  "link_heading = Tag ''h2'' [] [Tag ''a'' [] [Text ''List users'']]"

definition users_h3 :: node where
  "users_h3 = Tag ''h3'' [] [Text ''GET /api/v1/users'']"

text \<open>One heading "GET /api/v1/users", a paragraph, a table of two rows.\<close>

definition scenario_heading :: node where
  "scenario_heading = Tag ''h2'' [] [Tag ''a'' [] [Text ''GET /api/v1/users'']]"

definition scenario_html :: "node list" where
  "scenario_html =
     [Tag ''div'' [] [Tag ''div'' []
        [scenario_heading,
         Tag ''p'' [] [Text ''Lists users.''],
         Tag ''table'' [] two_rows]]]"

definition scenario_record :: method_endpoint where
  "scenario_record =
     \<lparr>resource = ''Users'', name = ''users'', http_method = ''GET'', path = ''/api/v1/users'',
      description = ''Lists users.'', parameters = [], example = None\<rparr>"

text \<open>The same with the heading's text not wrapped in a link, and with a header row.\<close>

definition scenario_plain_html :: "node list" where
  "scenario_plain_html =
     [Tag ''div'' [] [Tag ''div'' []
        [Tag ''h2'' [] [Text ''GET /api/v1/users''],
         Tag ''p'' [] [Text ''Lists users.''],
         Tag ''table'' [] (header_row # two_rows)]]]"

text \<open>
  The layout \<open>parse_canvas_api_page\<close> reads: a title heading with a link, then an \<open>h3\<close>
  with method and path, the paragraph, and a table with a header row.
\<close>

definition canvas_html :: "node list" where
  "canvas_html =
     [Tag ''div'' [] [Tag ''div'' []
        [link_heading,
         users_h3,
         Tag ''p'' [] [Text ''Lists users.''],
         Tag ''table'' [] (header_row # two_rows)]]]"

definition canvas_record :: canvas_endpoint where
  "canvas_record =
     \<lparr>resource = ''Users'', name = ''List users'', http_method = ''GET'',
      path = ''/api/v1/users'', description = ''Lists users.'', parameters = two_params,
      example_request = [], example_response = []\<rparr>"

text \<open>The same page with a title heading that has no link.\<close>

definition no_link_heading :: node where
  "no_link_heading = Tag ''h2'' [] [Text ''List users'']"

definition no_link_html :: "node list" where
  "no_link_html =
     [Tag ''div'' [] [Tag ''div'' []
        [no_link_heading, users_h3, Tag ''p'' [] [Text ''Lists users.''],
         Tag ''table'' [] (header_row # two_rows)]]]"

text \<open>A heading and its \<open>h3\<close> with no paragraph, table or example after them.\<close>

definition minimal_html :: "node list" where
  "minimal_html = [Tag ''div'' [] [Tag ''div'' [] [link_heading, users_h3]]]"

text \<open>A heading "GET /" alone in its parent.\<close>

definition bare_heading :: node where
  "bare_heading = Tag ''h2'' [] [Text ''GET /'']"

definition bare_html :: "node list" where
  "bare_html = [Tag ''div'' [] [bare_heading]]"

text \<open>A verb outside the patterns.\<close>

definition fetch_heading :: node where
  "fetch_heading = Tag ''h2'' [] [Tag ''a'' [] [Text ''FETCH /foo'']]"

definition fetch_h3 :: node where
  "fetch_h3 = Tag ''h3'' [] [Text ''FETCH /foo'']"

definition fetch_html :: "node list" where
  "fetch_html =
     [Tag ''div'' [] [Tag ''div'' []
        [fetch_heading, fetch_h3, Tag ''p'' [] [Text ''Fetches foo.'']]]]"

text \<open>A paragraph of 600 characters, in the layout of each extractor.\<close>

definition long_text :: string where
  "long_text = replicate 600 (CHR ''x'')"

definition long_html :: "node list" where
  "long_html =
     [Tag ''div'' [] [Tag ''div'' []
        [link_heading, users_h3, Tag ''p'' [] [Text long_text]]]]"

definition long_canvas_record :: canvas_endpoint where
  "long_canvas_record =
     \<lparr>resource = ''Users'', name = ''List users'', http_method = ''GET'',
      path = ''/api/v1/users'', description = long_text, parameters = [],
      example_request = [], example_response = []\<rparr>"

definition long_heading :: node where
  "long_heading = Tag ''h2'' [] [Text ''GET /api/v1/users'']"

definition long_method_html :: "node list" where
  "long_method_html = [Tag ''div'' [] [long_heading, Tag ''p'' [] [Text long_text]]]"

definition long_method_record :: method_endpoint where
  "long_method_record =
     \<lparr>resource = ''Users'', name = ''users'', http_method = ''GET'', path = ''/api/v1/users'',
      description = replicate 500 (CHR ''x'') @ ''...'', parameters = [], example = None\<rparr>"

text \<open>
  Two endpoints, the first with a title heading only: its \<open>h3\<close>, paragraph, table and
  example are missing, those of the second follow the second heading.
\<close>

definition shadowed_heading :: node where
  "shadowed_heading = Tag ''h2'' [] [Tag ''a'' [] [Text ''Show a user'']]"

definition users_table :: node where
  "users_table = Tag ''table'' [] (header_row # two_rows)"

definition shadow_html :: "node list" where
  "shadow_html =
     [Tag ''div'' [] [Tag ''div'' []
        [shadowed_heading,
         link_heading,
         users_h3,
         Tag ''p'' [] [Text ''Lists users.''],
         users_table,
         Tag ''h4'' [] [Text ''Example Request:''],
         Tag ''pre'' [] [Text ''curl https://canvas/api/v1/users'']]]]"

definition shadow_record :: canvas_endpoint where
  "shadow_record = canvas_record\<lparr>example_request := ''curl https://canvas/api/v1/users''\<rparr>"

text \<open>
  Two full sections without tables: each heading is followed by its own \<open>h3\<close> and
  paragraph.
\<close>

definition show_h3 :: node where
  "show_h3 = Tag ''h3'' [] [Text ''GET /api/v1/users/:id'']"

definition two_section_html :: "node list" where
  "two_section_html =
     [Tag ''div'' [] [Tag ''div'' []
        [shadowed_heading,
         show_h3,
         Tag ''p'' [] [Text ''Shows one user.''],
         link_heading,
         users_h3,
         Tag ''p'' [] [Text ''Lists users.'']]]]"

definition show_record :: canvas_endpoint where
  "show_record =
     \<lparr>resource = ''Users'', name = ''Show a user'', http_method = ''GET'',
      path = ''/api/v1/users/:id'', description = ''Shows one user.'', parameters = [],
      example_request = [], example_response = []\<rparr>"

text \<open>Descriptions with the marker in the middle, once and twice.\<close>

definition mid_scope :: canvas_endpoint where
  "mid_scope = users_endpoint
     \<lparr>description := ''Lists all users. Scope: <code>url:GET|/api/v1/users</code> more text.''\<rparr>"

definition twice_scope :: canvas_endpoint where
  "twice_scope = users_endpoint\<lparr>description := ''Intro. Scope: read all Scope: write.''\<rparr>"

section \<open>The aggregator\<close>

lemma has_required_iff:
  "has_required e \<longleftrightarrow>
     resource e \<noteq> [] \<and> name e \<noteq> [] \<and> http_method e \<noteq> [] \<and> path e \<noteq> [] \<and> description e \<noteq> []"
  by (simp add: has_required_def REQUIRED_KEYS_def endpoint_items_def)

lemma process_batch_append:
  "process_batch st (xs @ ys) = process_batch (process_batch st xs) ys"
  by (induction xs arbitrary: st) simp_all

lemma process_batches_concat:
  "process_batches st bs = process_batch st (concat bs)"
  by (induction bs arbitrary: st) (simp_all add: process_batch_append)

lemma seen_process_endpoint:
  "seen_endpoint_ids (process_endpoint st e) =
     (if has_required e then insert (endpoint_id e) (seen_endpoint_ids st)
      else seen_endpoint_ids st)"
  by (auto simp: process_endpoint_def)

lemma seen_process_batch:
  "seen_endpoint_ids (process_batch st es) =
     seen_endpoint_ids st \<union> endpoint_id ` {x \<in> set es. has_required x}"
  by (induction es arbitrary: st) (auto simp: seen_process_endpoint)

lemma first_seen_valid_snoc_old:
  "i < length es \<Longrightarrow> first_seen_valid st (es @ [e]) i = first_seen_valid st es i"
  by (auto simp: first_seen_valid_def nth_append)

lemma first_seen_valid_snoc_new:
  "first_seen_valid st (es @ [e]) (length es) \<longleftrightarrow>
     has_required e \<and> endpoint_id e \<notin> seen_endpoint_ids (process_batch st es)"
proof -
  have "(\<forall>j<length es. has_required (es ! j) \<longrightarrow> endpoint_id (es ! j) \<noteq> endpoint_id e)
        \<longleftrightarrow> endpoint_id e \<notin> endpoint_id ` {x \<in> set es. has_required x}"
    by (auto simp: in_set_conv_nth image_iff)
  then show ?thesis
    by (auto simp: first_seen_valid_def nth_append seen_process_batch)
qed

text \<open>The accepted records are the old ones followed by the first-seen valid candidates, in order.\<close>

lemma all_process_batch:
  "all_endpoints (process_batch st es) =
     all_endpoints st @ map (nth es) (filter (first_seen_valid st es) [0..<length es])"
proof (induction es rule: rev_induct)
  case Nil
  show ?case by simp
next
  case (snoc e es)
  have f: "filter (first_seen_valid st (es @ [e])) [0..<length es] =
           filter (first_seen_valid st es) [0..<length es]"
    by (rule filter_cong) (simp_all add: first_seen_valid_snoc_old)
  have old: "map (nth (es @ [e])) (filter (first_seen_valid st es) [0..<length es])
        = map (nth es) (filter (first_seen_valid st es) [0..<length es])"
    by (rule map_cong) (simp_all add: nth_append)
  have new: "all_endpoints (process_endpoint s e) =
      all_endpoints s @
      (if has_required e \<and> endpoint_id e \<notin> seen_endpoint_ids s then [e] else [])"
    for s :: "'a crawl_state"
    by (simp add: process_endpoint_def)
  show ?case
    by (simp add: process_batch_append snoc.IH new f old first_seen_valid_snoc_new)
qed

lemma subseq_nths: "subseq (map (nth es) (filter P [0..<length es])) es"
proof (induction es rule: rev_induct)
  case Nil
  show ?case by simp
next
  case (snoc e es)
  have eq: "map (nth (es @ [e])) (filter P [0..<length es]) =
            map (nth es) (filter P [0..<length es])"
    by (rule map_cong) (simp_all add: nth_append)
  have step: "map (nth (es @ [e])) (filter P [0..<length (es @ [e])])
        = map (nth es) (filter P [0..<length es]) @ (if P (length es) then [e] else [])"
    by (simp add: eq)
  have "subseq (map (nth es) (filter P [0..<length es]) @ (if P (length es) then [e] else []))
          (es @ [e])"
    using snoc.IH by (simp add: list_emb_append_mono)
  then show ?case unfolding step .
qed

lemma process_endpoint_cases:
  "process_endpoint st e =
     (if endpoint_id e \<in> seen_endpoint_ids st then st
      else if resource e = [] \<or> name e = [] \<or> http_method e = [] \<or> path e = []
              \<or> description e = [] then st
      else \<lparr>seen_endpoint_ids = insert (endpoint_id e) (seen_endpoint_ids st),
            all_endpoints = all_endpoints st @ [e]\<rparr>)"
  by (simp add: process_endpoint_def has_required_iff)

lemma accepted_have_required:
  "x \<in> set (all_endpoints (process_batch init_state es)) \<Longrightarrow> has_required x"
  by (auto simp: all_process_batch init_state_def first_seen_valid_def)

text \<open>
  Claim C3. Each candidate is skipped when its key is in the seen-set, otherwise skipped
  when one of resource, name, http_method, path, description is empty, otherwise its key
  joins the seen-set and the record is appended. Over all batches of a run, the accepted
  records are therefore exactly the first-seen valid candidates in arrival order (a
  subsequence of the candidates), and a candidate with an empty description is never
  among them.
\<close>

theorem aggregator_first_seen_order:
  "process_endpoint st e =
     (if endpoint_id e \<in> seen_endpoint_ids st then st
      else if resource e = [] \<or> name e = [] \<or> http_method e = [] \<or> path e = []
              \<or> description e = [] then st
      else \<lparr>seen_endpoint_ids = insert (endpoint_id e) (seen_endpoint_ids st),
            all_endpoints = all_endpoints st @ [e]\<rparr>)
   \<and> all_endpoints (process_batches st bs) =
       all_endpoints st @
       map (nth (concat bs)) (filter (first_seen_valid st (concat bs)) [0..<length (concat bs)])
   \<and> seen_endpoint_ids (process_batches st bs) =
       seen_endpoint_ids st \<union> endpoint_id ` {x \<in> set (concat bs). has_required x}
   \<and> subseq (all_endpoints (process_batches init_state bs)) (concat bs)
   \<and> (description e = [] \<longrightarrow> e \<notin> set (all_endpoints (process_batches init_state bs)))"
proof -
  have "subseq (all_endpoints (process_batches init_state bs)) (concat bs)"
    by (simp add: process_batches_concat all_process_batch init_state_def subseq_nths)
  moreover have "description e = [] \<longrightarrow> e \<notin> set (all_endpoints (process_batches init_state bs))"
    using accepted_have_required [of e "concat bs"]
    by (auto simp: process_batches_concat has_required_iff)
  ultimately show ?thesis
    by (simp add: process_endpoint_cases process_batches_concat all_process_batch
        seen_process_batch)
qed

theorem aggregator_first_seen_order_witness:
  "description blank_endpoint = [] \<and>
   blank_endpoint \<notin> set (all_endpoints (process_batches init_state
      [[blank_endpoint, users_endpoint, courses_endpoint], [users_endpoint], [blank_endpoint]])) \<and>
   all_endpoints (process_batches init_state
      [[blank_endpoint, users_endpoint, courses_endpoint], [users_endpoint], [blank_endpoint]])
     = [users_endpoint, courses_endpoint]"
proof -
  have d: "description blank_endpoint = []"
    by (simp add: blank_endpoint_def)
  have "blank_endpoint \<notin> set (all_endpoints (process_batches init_state
      [[blank_endpoint, users_endpoint, courses_endpoint], [users_endpoint], [blank_endpoint]]))"
    using aggregator_first_seen_order [of init_state blank_endpoint
      "[[blank_endpoint, users_endpoint, courses_endpoint], [users_endpoint], [blank_endpoint]]"] d
    by blast
  moreover have "all_endpoints (process_batches init_state
      [[blank_endpoint, users_endpoint, courses_endpoint], [users_endpoint], [blank_endpoint]])
     = [users_endpoint, courses_endpoint]"
    by (simp add: process_endpoint_cases init_state_def endpoint_id_def blank_endpoint_def
        users_endpoint_def courses_endpoint_def)
  ultimately show ?thesis using d by simp
qed

lemma process_batch_fixed:
  "\<forall>e \<in> set es. endpoint_id e \<in> seen_endpoint_ids st \<or> \<not> has_required e \<Longrightarrow>
   process_batch st es = st"
  by (induction es) (auto simp: process_endpoint_def)

text \<open>
  Claim C5. From any aggregator state, feeding a batch a second time changes nothing: the
  state after two passes (accepted records and seen-set) is the state after one.
\<close>

theorem process_batch_idempotent:
  "process_batch (process_batch st b) b = process_batch st b"
  by (rule process_batch_fixed) (auto simp: seen_process_batch)

text \<open>The invariant behind uniqueness: accepted keys are pairwise different and all seen.\<close>

lemma keys_distinct_init:
  "distinct (map endpoint_id (all_endpoints init_state)) \<and>
   endpoint_id ` set (all_endpoints init_state) \<subseteq> seen_endpoint_ids init_state"
  by (simp add: init_state_def)

lemma keys_distinct_step:
  "distinct (map endpoint_id (all_endpoints st)) \<and>
   endpoint_id ` set (all_endpoints st) \<subseteq> seen_endpoint_ids st \<Longrightarrow>
   distinct (map endpoint_id (all_endpoints (process_endpoint st e))) \<and>
   endpoint_id ` set (all_endpoints (process_endpoint st e))
     \<subseteq> seen_endpoint_ids (process_endpoint st e)"
  by (auto simp: process_endpoint_def)

lemma reachable_keys_distinct:
  "reachable st \<Longrightarrow>
   distinct (map endpoint_id (all_endpoints st)) \<and>
   endpoint_id ` set (all_endpoints st) \<subseteq> seen_endpoint_ids st"
proof (induction rule: reachable.induct)
  case start
  show ?case by (rule keys_distinct_init)
next
  case (step st e)
  then show ?case by (intro keys_distinct_step)
qed

lemma distinct_identity:
  assumes "distinct (map endpoint_id es)"
  shows "distinct (map identity es)"
proof -
  let ?g = "\<lambda>(r, m, p). r @ ''_'' @ m @ ''_'' @ p"
  have "endpoint_id = ?g \<circ> (identity :: 'a endpoint_scheme \<Rightarrow> _)"
    by (auto simp: endpoint_id_def identity_def fun_eq_iff)
  with assms have "distinct (map ?g (map identity es))"
    by simp
  then show ?thesis
    by (auto simp: distinct_map dest: inj_on_imageI2)
qed

lemma reachable_process_batch: "reachable st \<Longrightarrow> reachable (process_batch st es)"
  by (induction es arbitrary: st) (auto intro: reachable.step)

text \<open>
  Claim C4. In every reachable state of the aggregator, the accepted records have pairwise
  different (resource, http_method, path) triples.
\<close>

theorem identity_unique:
  "reachable st \<Longrightarrow> distinct (map identity (all_endpoints st))"
  by (auto dest!: reachable_keys_distinct intro: distinct_identity)

theorem identity_unique_witness:
  "reachable (process_batch init_state [users_endpoint, courses_endpoint, users_endpoint]) \<and>
   all_endpoints (process_batch init_state [users_endpoint, courses_endpoint, users_endpoint])
     = [users_endpoint, courses_endpoint] \<and>
   distinct (map identity
     (all_endpoints (process_batch init_state [users_endpoint, courses_endpoint, users_endpoint])))"
proof -
  have r: "reachable (process_batch init_state [users_endpoint, courses_endpoint, users_endpoint])"
    by (rule reachable_process_batch) (rule reachable.start)
  have "all_endpoints (process_batch init_state [users_endpoint, courses_endpoint, users_endpoint])
     = [users_endpoint, courses_endpoint]"
    by (simp add: process_endpoint_cases init_state_def endpoint_id_def blank_endpoint_def
        users_endpoint_def courses_endpoint_def)
  with r identity_unique [OF r] show ?thesis by blast
qed

text \<open>
  Claim C9. The identity key is the one string resource, "_", http_method, "_", path.
  The two sample candidates have different triples and the same key, so the aggregator
  accepts the first and skips the second as a duplicate.
\<close>

theorem endpoint_id_collision:
  "endpoint_id e = resource e @ ''_'' @ http_method e @ ''_'' @ path e
   \<and> identity collide_a = (''A'', ''GET'', ''/x_POST_/y'')
   \<and> identity collide_b = (''A_GET_/x'', ''POST'', ''/y'')
   \<and> identity collide_a \<noteq> identity collide_b
   \<and> has_required collide_a \<and> has_required collide_b
   \<and> endpoint_id collide_a = endpoint_id collide_b
   \<and> all_endpoints (process_batch init_state [collide_a, collide_b]) = [collide_a]
   \<and> all_endpoints (process_batch init_state [collide_b]) = [collide_b]"
  by (simp add: endpoint_id_def identity_def collide_a_def collide_b_def has_required_iff
      process_endpoint_def init_state_def)

section \<open>Strings and patterns\<close>

lemma contains_iff: "contains sub s \<longleftrightarrow> (\<exists>xs ys. s = xs @ sub @ ys)"
proof (induction s)
  case Nil
  show ?case by auto
next
  case (Cons c cs)
  have "(\<exists>xs ys. c # cs = xs @ sub @ ys) \<longleftrightarrow>
        (\<exists>ys. c # cs = sub @ ys) \<or> (\<exists>xs ys. cs = xs @ sub @ ys)"
    by (auto simp: Cons_eq_append_conv)
  then show ?case using Cons.IH by (simp add: prefix_def)
qed

lemma method_then_in:
  "method_then ms rest s = Some (m, p) \<Longrightarrow>
   m \<in> set ms \<and> rest (drop (length m) s) = Some p \<and> prefix m s"
  by (induction ms) (auto split: if_splits option.splits)

lemma re_search_Some: "re_search pat s = Some r \<Longrightarrow> \<exists>t. suffix t s \<and> pat t = Some r"
proof (induction s)
  case Nil
  then show ?case by auto
next
  case (Cons c cs)
  then show ?case
    by (auto split: option.splits simp: suffix_Cons intro: suffix_order.refl) 
qed

lemma search_method_text_in:
  "search_method_text s = Some (m, p) \<Longrightarrow> m \<in> set api_methods \<and> p \<noteq> []"
  by (auto simp: search_method_text_def path_strict_def path_loose_def
      split: option.splits if_splits list.splits dest!: re_search_Some method_then_in)

lemma match_http_path_in:
  "match_http_path s = Some (m, p) \<Longrightarrow> m \<in> set canvas_methods \<and> p \<noteq> []"
  by (auto simp: match_http_path_def path_strict_def
      split: option.splits if_splits list.splits dest!: method_then_in)

lemma parse_api_method_method:
  assumes "parse_api_method soup el r = Inr (Some e)"
  shows "http_method e \<in> set api_methods"
proof (cases "search_method_text (get_text_strip (snd el))")
  case None
  with assms show ?thesis by (simp add: parse_api_method_def)
next
  case (Some mp)
  obtain m p where mp: "mp = (m, p)" by (cases mp)
  from Some mp have "m \<in> set api_methods"
    using search_method_text_in by blast
  moreover from assms Some mp have "http_method e = m"
    by (auto simp: parse_api_method_def split: sum.splits)
  ultimately show ?thesis by simp
qed

lemma extract_method:
  assumes "extract_endpoint_from_section soup sec r = Some e"
  shows "http_method e \<in> set canvas_methods"
proof -
  from assms obtain h3 m p where
    "match_http_path (get_text_strip (snd h3)) = Some (m, p)" and "http_method e = m"
    by (auto simp: extract_endpoint_from_section_def split: option.splits if_splits)
  then show ?thesis using match_http_path_in by blast
qed

lemma set_map_filter_iff: "e \<in> set (List.map_filter f xs) \<longleftrightarrow> (\<exists>x \<in> set xs. f x = Some e)"
  by (induction xs) (auto split: option.splits)

lemma parse_page_method:
  "e \<in> set (parse_canvas_api_page html r) \<Longrightarrow> http_method e \<in> set canvas_methods"
  by (auto simp: parse_canvas_api_page_def Let_def set_map_filter_iff dest: extract_method)

lemma set_process_batch:
  "set (all_endpoints (process_batch st es)) \<subseteq> set (all_endpoints st) \<union> set es"
  by (auto simp: all_process_batch)

lemma crawl_pages_method:
  "\<forall>e \<in> set (all_endpoints st). http_method e \<in> set canvas_methods \<Longrightarrow>
   e \<in> set (all_endpoints (crawl_pages st pages)) \<Longrightarrow> http_method e \<in> set canvas_methods"
proof (induction st pages rule: crawl_pages.induct)
  case (1 st)
  then show ?case by simp
next
  case (2 st resource_name msg rest)
  then show ?case by simp
next
  case (3 st resource_name html rest)
  have "\<forall>e\<in>set (all_endpoints (process_batch st (parse_canvas_api_page html resource_name))).
          http_method e \<in> set canvas_methods"
    using set_process_batch [of st "parse_canvas_api_page html resource_name"] "3.prems"(1)
    by (auto dest: parse_page_method)
  then show ?case using "3.IH" "3.prems"(2) by simp
qed

lemma canvas_sub_api: "set canvas_methods \<subseteq> set api_methods"
  by (simp add: canvas_methods_def api_methods_def)

lemma fetch_no_match:
  "search_method_text ''FETCH /foo'' = None" "match_http_path ''FETCH /foo'' = None"
  by code_simp+

section \<open>The extractors\<close>

lemma name_from_path_nonempty: "name_from_path m p r \<noteq> []"
  by (simp add: name_from_path_def Let_def)

lemma limit_description_nonempty: "d \<noteq> [] \<Longrightarrow> limit_description d \<noteq> []"
  by (simp add: limit_description_def)

lemma scan_siblings_nonempty: "scan_siblings k sibs = Some t \<Longrightarrow> t \<noteq> []"
  by (induction k sibs rule: scan_siblings.induct) (auto split: if_splits)

lemma raw_description_nonempty: "raw_description soup el mt p = Inr d \<Longrightarrow> d \<noteq> []"
  by (auto simp: raw_description_def Let_def split: option.splits if_splits
      dest: scan_siblings_nonempty)

lemma raw_description_parent:
  "parent soup (fst el) \<noteq> None \<Longrightarrow> \<exists>d. raw_description soup el mt p = Inr d"
  by (auto simp: raw_description_def Let_def split: option.splits)

lemma parse_api_method_Some:
  assumes "search_method_text (get_text_strip (snd el)) = Some (m, p)"
    and "parent soup (fst el) \<noteq> None"
  shows "\<exists>e. parse_api_method soup el r = Inr (Some e) \<and> http_method e = m \<and> path e = p \<and>
           name e \<noteq> [] \<and> description e \<noteq> [] \<and> parameters e = [] \<and> example e = None"
proof -
  from assms(2) obtain d where d: "raw_description soup el (get_text_strip (snd el)) p = Inr d"
    using raw_description_parent by blast
  then have "d \<noteq> []" by (rule raw_description_nonempty)
  with assms(1) d show ?thesis
    by (simp add: parse_api_method_def name_from_path_nonempty limit_description_nonempty)
qed

lemma parse_api_method_None:
  "parse_api_method soup el r = Inr None \<longleftrightarrow> search_method_text (get_text_strip (snd el)) = None"
  by (auto simp: parse_api_method_def Let_def split: option.splits sum.splits)

lemma extract_None:
  "extract_endpoint_from_section soup sec r = None \<longleftrightarrow>
     section_name (snd sec) = [] \<or>
     (case find_next soup (fst sec) (is_named ''h3'') of
        None \<Rightarrow> True
      | Some h3 \<Rightarrow> match_http_path (get_text_strip (snd h3)) = None)"
  by (auto simp: extract_endpoint_from_section_def split: option.splits)

lemma extract_Some_h3:
  assumes "extract_endpoint_from_section soup sec r = Some e"
  shows "\<exists>h3. find_next soup (fst sec) (is_named ''h3'') = Some h3 \<and>
            match_http_path (get_text_strip (snd h3)) = Some (http_method e, path e) \<and>
            description e = (case find_next soup (fst h3) (is_named ''p'') of
                               None \<Rightarrow> [] | Some p_tag \<Rightarrow> get_text_strip (snd p_tag))"
proof (cases "find_next soup (fst sec) (is_named ''h3'')")
  case None
  with assms show ?thesis
    by (simp add: extract_endpoint_from_section_def split: if_splits)
next
  case (Some h3)
  with assms have "match_http_path (get_text_strip (snd h3)) = Some (http_method e, path e) \<and>
            description e = (case find_next soup (fst h3) (is_named ''p'') of
                               None \<Rightarrow> [] | Some p_tag \<Rightarrow> get_text_strip (snd p_tag))"
    by (cases "match_http_path (get_text_strip (snd h3))")
       (auto simp: extract_endpoint_from_section_def split: if_splits)
  with Some show ?thesis by blast
qed

lemma extract_Some_fields:
  assumes "extract_endpoint_from_section soup sec r = Some e"
  shows "resource e = r \<and> name e = section_name (snd sec) \<and> name e \<noteq> [] \<and>
         parameters e = (case find_next soup (fst sec) (is_named ''table'') of
                            None \<Rightarrow> []
                          | Some t \<Rightarrow> param_rows (drop 1 (find_all (snd t) ''tr''))) \<and>
         example_request e = find_example soup (fst sec) ''Example Request'' \<and>
         example_response e = find_example soup (fst sec) ''Example Response''"
  using assms
  by (auto simp: extract_endpoint_from_section_def split: option.splits if_splits)

lemma next_elements_suffix: "suffix (next_elements soup p) (document_order [] soup)"
  unfolding next_elements_def
  by (meson suffix_drop suffix_dropWhile suffix_order.trans)

lemma csv_description_bound: "length (row_description (csv_row_of y)) \<le> 203"
  by (simp add: csv_row_of_def)

lemma limit_600:
  "length d = 600 \<Longrightarrow> limit_description d = take 500 d @ ''...'' \<and> length (limit_description d) = 503"
  by (simp add: limit_description_def)

lemma csv_after_limit:
  "length d = 600 \<Longrightarrow>
   row_description (csv_row_of (x\<lparr>description := limit_description d\<rparr>)) = take 200 d @ ''...''"
  by (simp add: csv_row_of_def limit_description_def)

lemma extract_scope_no_marker:
  "\<not> (\<exists>xs ys. description e = xs @ ''Scope:'' @ ys) \<Longrightarrow> extract_scope e = []"
  using contains_iff [of "''Scope:''" "description e"] by (simp add: extract_scope_def) 

lemma extract_scope_examples:
  "extract_scope (e\<lparr>description := ''Scope: <code>url:GET|/api/v1/users</code> more text.''\<rparr>)
     = ''url:GET|/api/v1/users''"
  "extract_scope (e\<lparr>description := ''Scope: allows read access. Other info.''\<rparr>)
     = ''allows read access''"
  by (simp_all add: extract_scope_def py_split_def search_code_def py_find_def py_strip_def is_space_def)

lemma parse_api_method_description:
  assumes "parse_api_method soup el r = Inr (Some e)"
  shows "\<exists>d. raw_description soup el (get_text_strip (snd el)) (path e) = Inr d \<and>
             description e = limit_description d"
  using assms
  by (auto simp: parse_api_method_def Let_def split: option.splits sum.splits)

lemma csv_600:
  "length (description y) = 600 \<Longrightarrow>
   row_description (csv_row_of y) = take 200 (description y) @ ''...''"
  by (simp add: csv_row_of_def)

text \<open>
  Claim C1, as stated, fails. With the one heading "GET /api/v1/users" (wrapped in a link or
  not), the paragraph and the table, \<open>parse_canvas_api_page\<close> finds no \<open>h3\<close> after the
  heading and returns no record; \<open>parse_api_method\<close> on the same heading returns a record
  whose parameter list is empty.
\<close>

theorem scenario_counterexample:
  "parse_canvas_api_page scenario_html ''Users'' = []
   \<and> parse_canvas_api_page scenario_plain_html ''Users'' = []
   \<and> parse_api_method (BeautifulSoup scenario_html) ([0, 0, 0], scenario_heading) ''Users'' =
       Inr (Some scenario_record)
   \<and> parameters scenario_record = []
   \<and> row_parameter_count (csv_row_of scenario_record) = 0"
  by code_simp

text \<open>
  Claim C1, amended. For a page in the layout the extractor reads (an \<open>h2\<close> inside two
  nested \<open>div\<close>s holding a link with the endpoint's name, then an \<open>h3\<close> with the text
  "GET /api/v1/users", the paragraph "Lists users." and a table of a header row and two
  three-cell rows), the extractor yields exactly one record with http_method GET, path
  /api/v1/users, description "Lists users." and two parameters; the aggregator accepts it,
  and its row in the tabular output has parameter_count 2.
\<close>

theorem canvas_scenario:
  "parse_canvas_api_page canvas_html ''Users'' = [canvas_record]
   \<and> http_method canvas_record = ''GET'' \<and> path canvas_record = ''/api/v1/users''
   \<and> description canvas_record = ''Lists users.'' \<and> length (parameters canvas_record) = 2
   \<and> all_endpoints (process_batch init_state (parse_canvas_api_page canvas_html ''Users''))
       = [canvas_record]
   \<and> crawl_canvas_api [(''Users'', Fetched canvas_html)] =
       \<lparr>csv_file = Some [\<lparr>row_resource = ''Users'', row_name = ''List users'',
            row_http_method = ''GET'', row_path = ''/api/v1/users'',
            row_description = ''Lists users.'', row_scope = [], row_parameter_count = 2\<rparr>],
        json_file = Some [canvas_record]\<rparr>"
  by code_simp

text \<open>
  Claim C2, as stated, fails. A heading without a link has no name; the \<open>h3\<close> after it
  holds a valid method and path, and \<open>extract_endpoint_from_section\<close> still returns
  nothing for it.
\<close>

theorem missing_name_counterexample:
  "match_http_path (get_text_strip users_h3) = Some (''GET'', ''/api/v1/users'')
   \<and> find_next (BeautifulSoup no_link_html) [0, 0, 0] (is_named ''h3'') = Some ([0, 0, 1], users_h3)
   \<and> select_div_div_h2 (BeautifulSoup no_link_html) = [([0, 0, 0], no_link_heading)]
   \<and> extract_endpoint_from_section (BeautifulSoup no_link_html) ([0, 0, 0], no_link_heading)
        ''Users'' = None
   \<and> parse_canvas_api_page no_link_html ''Users'' = []"
  by code_simp

text \<open>
  Claim C2, amended. \<open>parse_api_method\<close> returns nothing exactly when the method and path
  search on the heading's text fails; when the search succeeds (and the heading has a
  parent) it returns a record whose name and description are not empty, with no
  parameters and no example. \<open>extract_endpoint_from_section\<close> returns nothing exactly when
  the heading's link text is missing or empty, or no \<open>h3\<close> follows, or the \<open>h3\<close> text does
  not match method and path; so a missing paragraph, table or example never discards a
  candidate there, and a missing name does.
\<close>

theorem optional_fields_fallback:
  "(search_method_text (get_text_strip (snd el)) = Some (m, p) \<and> parent soup (fst el) \<noteq> None \<longrightarrow>
      (\<exists>e. parse_api_method soup el r = Inr (Some e) \<and> http_method e = m \<and> path e = p \<and>
           name e \<noteq> [] \<and> description e \<noteq> [] \<and> parameters e = [] \<and> example e = None))
   \<and> (parse_api_method soup el r = Inr None \<longleftrightarrow>
        search_method_text (get_text_strip (snd el)) = None)
   \<and> (extract_endpoint_from_section soup' sec r' = None \<longleftrightarrow>
        section_name (snd sec) = [] \<or>
        (case find_next soup' (fst sec) (is_named ''h3'') of
           None \<Rightarrow> True
         | Some h3 \<Rightarrow> match_http_path (get_text_strip (snd h3)) = None))"
  using parse_api_method_Some [of el m p soup r] parse_api_method_None [of soup el r]
    extract_None [of soup' sec r']
  by blast

theorem optional_fields_fallback_witness:
  "search_method_text (get_text_strip (snd ([0, 0], bare_heading))) = Some (''GET'', ''/'')
   \<and> parent (BeautifulSoup bare_html) (fst ([0, 0], bare_heading)) \<noteq> None
   \<and> (\<exists>e. parse_api_method (BeautifulSoup bare_html) ([0, 0], bare_heading) ''Users'' = Inr (Some e)
          \<and> name e \<noteq> [] \<and> description e \<noteq> [])
   \<and> parse_api_method (BeautifulSoup bare_html) ([0, 0], bare_heading) ''Users'' =
       Inr (Some \<lparr>resource = ''Users'', name = ''GET Users endpoint'', http_method = ''GET'',
                  path = ''/'', description = ''API endpoint for /'', parameters = [],
                  example = None\<rparr>)
   \<and> extract_endpoint_from_section (BeautifulSoup minimal_html) ([0, 0, 0], link_heading) ''Users''
       = Some (blank_endpoint)
   \<and> description blank_endpoint = [] \<and> parameters blank_endpoint = []
   \<and> example_request blank_endpoint = [] \<and> example_response blank_endpoint = []"
proof -
  have a: "search_method_text (get_text_strip (snd ([0, 0], bare_heading))) = Some (''GET'', ''/'')"
    by code_simp
  have b: "parent (BeautifulSoup bare_html) (fst ([0::nat, 0], bare_heading)) \<noteq> None"
    by code_simp
  have c: "parse_api_method (BeautifulSoup bare_html) ([0, 0], bare_heading) ''Users'' =
       Inr (Some \<lparr>resource = ''Users'', name = ''GET Users endpoint'', http_method = ''GET'',
                  path = ''/'', description = ''API endpoint for /'', parameters = [],
                  example = None\<rparr>)"
    by code_simp
  have d: "extract_endpoint_from_section (BeautifulSoup minimal_html) ([0, 0, 0], link_heading)
      ''Users'' = Some (blank_endpoint)"
    by code_simp
  have f: "description blank_endpoint = [] \<and> parameters blank_endpoint = []
      \<and> example_request blank_endpoint = [] \<and> example_response blank_endpoint = []"
    by (simp add: blank_endpoint_def)
  from a b optional_fields_fallback [of "([0, 0], bare_heading)" "''GET''" "''/''"
      "BeautifulSoup bare_html" "''Users''"]
  have "\<exists>e. parse_api_method (BeautifulSoup bare_html) ([0, 0], bare_heading) ''Users'' = Inr (Some e)
          \<and> name e \<noteq> [] \<and> description e \<noteq> []"
    by blast
  with a b c d f show ?thesis by blast
qed

text \<open>
  Claim C6. Every record the crawl accepts, and every record \<open>parse_api_method\<close> returns,
  has an http_method among GET, POST, PUT, DELETE, PATCH. A heading whose text is
  "FETCH /foo" gives no record in \<open>parse_api_method\<close>, and an \<open>h3\<close> with that text gives
  no record in \<open>extract_endpoint_from_section\<close>.
\<close>

theorem method_enumeration:
  "(e \<in> set (all_endpoints (crawl_pages init_state pages)) \<longrightarrow> http_method e \<in> set api_methods)
   \<and> (parse_api_method soup el r = Inr (Some e') \<longrightarrow> http_method e' \<in> set api_methods)
   \<and> (get_text_strip (snd el') = ''FETCH /foo'' \<longrightarrow> parse_api_method soup' el' r' = Inr None)
   \<and> (find_next soup'' (fst sec) (is_named ''h3'') = Some h3 \<and>
        get_text_strip (snd h3) = ''FETCH /foo'' \<longrightarrow>
        extract_endpoint_from_section soup'' sec r'' = None)
   \<and> set api_methods = {''GET'', ''POST'', ''PUT'', ''DELETE'', ''PATCH''}"
proof -
  have "e \<in> set (all_endpoints (crawl_pages init_state pages)) \<longrightarrow>
        http_method e \<in> set canvas_methods"
    using crawl_pages_method [of init_state e pages] by (simp add: init_state_def)
  then have 1: "e \<in> set (all_endpoints (crawl_pages init_state pages)) \<longrightarrow>
        http_method e \<in> set api_methods"
    using canvas_sub_api by blast
  have 2: "parse_api_method soup el r = Inr (Some e') \<longrightarrow> http_method e' \<in> set api_methods"
    using parse_api_method_method by blast
  have 3: "get_text_strip (snd el') = ''FETCH /foo'' \<longrightarrow> parse_api_method soup' el' r' = Inr None"
    using fetch_no_match(1) by (simp add: parse_api_method_None)
  have 4: "find_next soup'' (fst sec) (is_named ''h3'') = Some h3 \<and>
        get_text_strip (snd h3) = ''FETCH /foo'' \<longrightarrow>
        extract_endpoint_from_section soup'' sec r'' = None"
    using fetch_no_match(2) by (simp add: extract_None)
  have 5: "set api_methods = {''GET'', ''POST'', ''PUT'', ''DELETE'', ''PATCH''}"
    by (simp add: api_methods_def)
  show ?thesis
    by (intro conjI 1 2 3 4 5)
qed

theorem method_enumeration_witness:
  "canvas_record \<in> set (all_endpoints (crawl_pages init_state [(''Users'', Fetched canvas_html)]))
   \<and> http_method canvas_record \<in> set api_methods
   \<and> parse_api_method (BeautifulSoup scenario_html) ([0, 0, 0], scenario_heading) ''Users''
        = Inr (Some scenario_record)
   \<and> http_method scenario_record \<in> set api_methods
   \<and> get_text_strip (snd ([0, 0, 0], fetch_heading)) = ''FETCH /foo''
   \<and> parse_api_method (BeautifulSoup fetch_html) ([0, 0, 0], fetch_heading) ''Users'' = Inr None
   \<and> find_next (BeautifulSoup fetch_html) (fst ([0, 0, 0], fetch_heading)) (is_named ''h3'')
        = Some ([0, 0, 1], fetch_h3)
   \<and> get_text_strip (snd ([0, 0, 1], fetch_h3)) = ''FETCH /foo''
   \<and> extract_endpoint_from_section (BeautifulSoup fetch_html) ([0, 0, 0], fetch_heading) ''Users''
        = None"
proof -
  have a: "canvas_record \<in> set (all_endpoints (crawl_pages init_state [(''Users'', Fetched canvas_html)]))"
    by code_simp
  have a': "parse_api_method (BeautifulSoup scenario_html) ([0, 0, 0], scenario_heading) ''Users''
        = Inr (Some scenario_record)"
    by code_simp
  have b: "get_text_strip (snd ([0, 0, 0], fetch_heading)) = ''FETCH /foo''"
    by code_simp
  have c: "find_next (BeautifulSoup fetch_html) (fst ([0, 0, 0], fetch_heading)) (is_named ''h3'')
        = Some ([0, 0, 1], fetch_h3)"
    by code_simp
  have d: "get_text_strip (snd ([0, 0, 1], fetch_h3)) = ''FETCH /foo''"
    by code_simp
  note t = method_enumeration [of canvas_record "[(''Users'', Fetched canvas_html)]"
      "BeautifulSoup scenario_html" "([0, 0, 0], scenario_heading)" "''Users''" scenario_record
      "([0, 0, 0], fetch_heading)" "BeautifulSoup fetch_html" "''Users''"
      "BeautifulSoup fetch_html" "([0, 0, 0], fetch_heading)" "([0, 0, 1], fetch_h3)" "''Users''"]
  have e1: "http_method canvas_record \<in> set api_methods"
    by (rule mp [OF t [THEN conjunct1] a])
  have e2: "http_method scenario_record \<in> set api_methods"
    by (rule mp [OF t [THEN conjunct2, THEN conjunct1] a'])
  have e3: "parse_api_method (BeautifulSoup fetch_html) ([0, 0, 0], fetch_heading) ''Users'' = Inr None"
    by (rule mp [OF t [THEN conjunct2, THEN conjunct2, THEN conjunct1] b])
  have e4: "extract_endpoint_from_section (BeautifulSoup fetch_html) ([0, 0, 0], fetch_heading) ''Users''
        = None"
    by (rule mp [OF t [THEN conjunct2, THEN conjunct2, THEN conjunct2, THEN conjunct1] conjI [OF c d]])
  show ?thesis
    by (intro conjI a a' b c d e1 e2 e3 e4)
qed

section \<open>The scope marker\<close>

lemma split_acc_nonempty: "split_acc sep acc s \<noteq> []"
  by (induction s arbitrary: acc) auto

lemma split_acc_none: "\<not> contains sep s \<Longrightarrow> split_acc sep acc s = [acc @ s]"
  by (induction s arbitrary: acc) auto

lemma split_acc_first:
  assumes "sep \<noteq> []" and "\<forall>i<length pre. \<not> prefix sep (drop i (pre @ sep @ rest))"
  shows "split_acc sep acc (pre @ sep @ rest) = (acc @ pre) # split_acc sep [] rest"
  using assms(2)
proof (induction pre arbitrary: acc)
  case Nil
  from assms(1) obtain c sep' where sep: "sep = c # sep'" by (cases sep) auto
  show ?case by (simp add: sep)
next
  case (Cons a pre)
  from Cons.prems have 0: "\<not> prefix sep (a # pre @ sep @ rest)"
    by (auto dest: spec [of _ 0])
  from Cons.prems have "\<forall>i<length pre. \<not> prefix sep (drop i (pre @ sep @ rest))"
    by (auto dest: spec [of _ "Suc i" for i])
  then have "split_acc sep (acc @ [a]) (pre @ sep @ rest) = ((acc @ [a]) @ pre) # split_acc sep [] rest"
    by (rule Cons.IH)
  with 0 show ?case by simp
qed

lemma first_at_decomp:
  assumes "first_at sub k s" and "sub \<noteq> []"
  shows "s = take k s @ sub @ drop (k + length sub) s"
    and "\<forall>i<length (take k s). \<not> prefix sub (drop i (take k s @ sub @ drop (k + length sub) s))"
proof -
  from assms(1) obtain zs where zs: "drop k s = sub @ zs"
    by (auto simp: first_at_def prefix_def)
  then have "drop (k + length sub) s = zs"
    by (metis add.commute append_eq_conv_conj drop_drop)
  with zs show 1: "s = take k s @ sub @ drop (k + length sub) s"
    by (metis append_take_drop_id)
  from assms(1) have "\<forall>i<k. \<not> prefix sub (drop i s)"
    by (simp add: first_at_def list_all_iff)
  with 1 show "\<forall>i<length (take k s). \<not> prefix sub (drop i (take k s @ sub @ drop (k + length sub) s))"
    by simp
qed

lemma py_split_first:
  assumes "first_at sub k s" and "sub \<noteq> []"
  shows "py_split s sub = take k s # split_acc sub [] (drop (k + length sub) s)"
proof -
  note d = first_at_decomp [OF assms]
  have "split_acc sub [] (take k s @ sub @ drop (k + length sub) s)
      = ([] @ take k s) # split_acc sub [] (drop (k + length sub) s)"
    using assms(2) d(2) by (rule split_acc_first)
  with d(1) show ?thesis by (simp add: py_split_def)
qed

lemma split_acc_hd:
  assumes "sub \<noteq> []"
  shows "\<not> contains sub s \<Longrightarrow> hd (split_acc sub [] s) = s"
    and "first_at sub j s \<Longrightarrow> hd (split_acc sub [] s) = take j s"
  using py_split_first [of sub j s] assms
  by (simp_all add: split_acc_none py_split_def)

lemma first_at_contains: "first_at sub k s \<Longrightarrow> contains sub s"
proof -
  assume "first_at sub k s"
  then obtain zs where "drop k s = sub @ zs"
    by (auto simp: first_at_def prefix_def)
  then have "s = take k s @ sub @ zs"
    by (metis append_take_drop_id)
  then show ?thesis unfolding contains_iff by blast
qed

lemma take_py_find:
  "c \<in> set s \<Longrightarrow> take (nat (py_find s c)) s = takeWhile (\<lambda>x. x \<noteq> c) s"
  using takeWhile_eq_take [of "\<lambda>x. x \<noteq> c" s] by (simp add: py_find_def)

lemma py_find_neg: "py_find s c = - 1 \<longleftrightarrow> c \<notin> set s"
  by (simp add: py_find_def)

lemma extract_scope_general:
  assumes "first_at ''Scope:'' k (description e)"
    and "seg = hd (split_acc ''Scope:'' [] (drop (k + 6) (description e)))"
  shows "extract_scope e =
     (case search_code seg of
        Some code \<Rightarrow> code
      | None \<Rightarrow>
          if CHR ''.'' \<in> set seg then py_strip (takeWhile (\<lambda>c. c \<noteq> CHR ''.'') seg)
          else if CHR 0x0A \<in> set seg then py_strip (takeWhile (\<lambda>c. c \<noteq> CHR 0x0A) seg)
          else py_strip seg)"
proof -
  have c: "contains ''Scope:'' (description e)"
    using assms(1) by (rule first_at_contains)
  have len: "k + 6 = k + length ''Scope:''"
    by simp
  have s: "py_split (description e) ''Scope:'' =
      take k (description e) # split_acc ''Scope:'' [] (drop (k + 6) (description e))"
    unfolding len by (rule py_split_first [OF assms(1)]) simp
  obtain x xs where x: "split_acc ''Scope:'' [] (drop (k + 6) (description e)) = x # xs"
    using split_acc_nonempty [of "''Scope:''" "[]" "drop (k + 6) (description e)"]
    by (auto simp: neq_Nil_conv)
  with assms(2) have seg: "seg = x" by simp
  have 1: "py_split (description e) ''Scope:'' ! 1 = seg"
    by (simp add: s x seg)
  have 2: "1 < length (py_split (description e) ''Scope:'')"
    by (simp add: s x)
  show ?thesis
    unfolding extract_scope_def Let_def 1
    using c 2 by (simp add: py_find_neg take_py_find split: option.splits)
qed

lemma first_at_iff:
  "first_at sub k s \<longleftrightarrow> prefix sub (drop k s) \<and> (\<forall>i<k. \<not> prefix sub (drop i s))"
  by (auto simp: first_at_def list_all_iff)

lemma first_at_Suc:
  "first_at sub (Suc j) (c # cs) \<longleftrightarrow> \<not> prefix sub (c # cs) \<and> first_at sub j cs"
proof -
  have "(\<forall>i<Suc j. \<not> prefix sub (drop i (c # cs))) \<longleftrightarrow>
        \<not> prefix sub (c # cs) \<and> (\<forall>i<j. \<not> prefix sub (drop i cs))"
    by (auto simp: less_Suc_eq_0_disj)
  then show ?thesis by (auto simp: first_at_iff)
qed

lemma re_search_hit: "pat s = Some r \<Longrightarrow> re_search pat s = Some r"
  by (cases s) simp_all

lemma re_search_skip:
  "\<forall>i<k. pat (drop i s) = None \<Longrightarrow> k \<le> length s \<Longrightarrow> re_search pat s = re_search pat (drop k s)"
proof (induction k arbitrary: s)
  case 0
  show ?case by simp
next
  case (Suc k)
  then obtain c cs where s: "s = c # cs" by (cases s) auto
  from Suc.prems(1) have 0: "pat (c # cs) = None"
    unfolding s by (auto dest: spec [of _ 0])
  from Suc.prems(1) have "\<forall>i<k. pat (drop i cs) = None"
    unfolding s by (auto dest: spec [of _ "Suc i" for i])
  moreover from Suc.prems(2) have "k \<le> length cs" by (simp add: s)
  ultimately have "re_search pat cs = re_search pat (drop k cs)" by (rule Suc.IH)
  with 0 show ?case by (simp add: s)
qed

lemma code_body_token:
  "first_at ''</code>'' j r \<Longrightarrow> CHR 0x0A \<notin> set (take j r) \<Longrightarrow> code_body r = Some (take j r)"
proof (induction r arbitrary: j)
  case Nil
  then show ?case by (simp add: first_at_iff)
next
  case (Cons c cs)
  show ?case
  proof (cases j)
    case 0
    with Cons.prems show ?thesis by (simp add: first_at_iff)
  next
    case (Suc j')
    with Cons.prems have "\<not> prefix ''</code>'' (c # cs)" and f: "first_at ''</code>'' j' cs"
      and "c \<noteq> CHR 0x0A" and n: "CHR 0x0A \<notin> set (take j' cs)"
      by (auto simp: first_at_Suc)
    moreover from f n have "code_body cs = Some (take j' cs)" by (rule Cons.IH)
    ultimately show ?thesis by (simp add: Suc)
  qed
qed

lemma search_code_token:
  assumes "first_at ''<code>'' i seg" and "first_at ''</code>'' j (drop (i + 6) seg)"
    and "CHR 0x0A \<notin> set (take j (drop (i + 6) seg))"
  shows "search_code seg = Some (take j (drop (i + 6) seg))"
proof -
  let ?pat = "\<lambda>t. if prefix ''<code>'' t then code_body (drop 6 t) else None"
  from assms(1) have p: "prefix ''<code>'' (drop i seg)" and
    n: "\<forall>k<i. \<not> prefix ''<code>'' (drop k seg)"
    by (simp_all add: first_at_iff)
  from p have "drop i seg \<noteq> []" by auto
  then have le: "i \<le> length seg" by simp
  from n have "\<forall>k<i. ?pat (drop k seg) = None" by simp
  then have "re_search ?pat seg = re_search ?pat (drop i seg)"
    using le by (rule re_search_skip)
  moreover have "?pat (drop i seg) = Some (take j (drop (i + 6) seg))"
    using p code_body_token [OF assms(2,3)] by (simp add: add.commute)
  ultimately show ?thesis
    by (simp only: search_code_def re_search_hit)
qed

lemma search_code_none: "\<not> contains ''<code>'' seg \<Longrightarrow> search_code seg = None"
  unfolding search_code_def by (induction seg) auto

text \<open>
  Claim C7. \<open>extract_scope\<close> looks for the marker "Scope:" anywhere in the description.
  Without the marker it returns the empty string. With it, the text between the leftmost
  marker and the next one (or the end) decides: the token of the leftmost code tag that
  closes on the same line if there is one, else the stripped text up to the first period,
  else up to the first newline, else all of it. For the two sample descriptions this is
  "url:GET|/api/v1/users" and "allows read access".
\<close>

theorem extract_scope_marker:
  "extract_scope (e\<lparr>description := ''Scope: <code>url:GET|/api/v1/users</code> more text.''\<rparr>)
     = ''url:GET|/api/v1/users''
   \<and> extract_scope (e\<lparr>description := ''Scope: allows read access. Other info.''\<rparr>)
     = ''allows read access''
   \<and> ((\<nexists>xs ys. description e = xs @ ''Scope:'' @ ys) \<longrightarrow> extract_scope e = [])
   \<and> (first_at ''Scope:'' k (description e') \<and> rest = drop (k + 6) (description e') \<and>
        (\<not> contains ''Scope:'' rest \<and> seg = rest \<or> first_at ''Scope:'' j rest \<and> seg = take j rest)
        \<longrightarrow> extract_scope e' =
          (case search_code seg of
             Some code \<Rightarrow> code
           | None \<Rightarrow>
               if CHR ''.'' \<in> set seg then py_strip (takeWhile (\<lambda>c. c \<noteq> CHR ''.'') seg)
               else if CHR 0x0A \<in> set seg then py_strip (takeWhile (\<lambda>c. c \<noteq> CHR 0x0A) seg)
               else py_strip seg))
   \<and> (first_at ''<code>'' i t \<and> first_at ''</code>'' n (drop (i + 6) t) \<and>
        CHR 0x0A \<notin> set (take n (drop (i + 6) t))
        \<longrightarrow> search_code t = Some (take n (drop (i + 6) t)))
   \<and> (\<not> contains ''<code>'' u \<longrightarrow> search_code u = None)
   \<and> (contains sub s \<longleftrightarrow> (\<exists>xs ys. s = xs @ sub @ ys))
   \<and> (first_at sub m s \<longleftrightarrow> prefix sub (drop m s) \<and> (\<forall>i<m. \<not> prefix sub (drop i s)))"
proof -
  have 4: "first_at ''Scope:'' k (description e') \<and> rest = drop (k + 6) (description e') \<and>
        (\<not> contains ''Scope:'' rest \<and> seg = rest \<or> first_at ''Scope:'' j rest \<and> seg = take j rest)
        \<longrightarrow> extract_scope e' =
          (case search_code seg of
             Some code \<Rightarrow> code
           | None \<Rightarrow>
               if CHR ''.'' \<in> set seg then py_strip (takeWhile (\<lambda>c. c \<noteq> CHR ''.'') seg)
               else if CHR 0x0A \<in> set seg then py_strip (takeWhile (\<lambda>c. c \<noteq> CHR 0x0A) seg)
               else py_strip seg)"
  proof (intro impI, elim conjE)
    assume f: "first_at ''Scope:'' k (description e')" and r: "rest = drop (k + 6) (description e')"
      and d: "\<not> contains ''Scope:'' rest \<and> seg = rest \<or> first_at ''Scope:'' j rest \<and> seg = take j rest"
    from d have "seg = hd (split_acc ''Scope:'' [] rest)"
      using split_acc_hd(1) [of "''Scope:''" rest] split_acc_hd(2) [of "''Scope:''" j rest]
      by auto
    with r have "seg = hd (split_acc ''Scope:'' [] (drop (k + 6) (description e')))"
      by simp
    with f show "extract_scope e' =
          (case search_code seg of
             Some code \<Rightarrow> code
           | None \<Rightarrow>
               if CHR ''.'' \<in> set seg then py_strip (takeWhile (\<lambda>c. c \<noteq> CHR ''.'') seg)
               else if CHR 0x0A \<in> set seg then py_strip (takeWhile (\<lambda>c. c \<noteq> CHR 0x0A) seg)
               else py_strip seg)"
      by (rule extract_scope_general)
  qed
  have 5: "first_at ''<code>'' i t \<and> first_at ''</code>'' n (drop (i + 6) t) \<and>
        CHR 0x0A \<notin> set (take n (drop (i + 6) t))
        \<longrightarrow> search_code t = Some (take n (drop (i + 6) t))"
    using search_code_token by blast
  have 6: "\<not> contains ''<code>'' u \<longrightarrow> search_code u = None"
    using search_code_none by blast
  have 3: "(\<nexists>xs ys. description e = xs @ ''Scope:'' @ ys) \<longrightarrow> extract_scope e = []"
    using extract_scope_no_marker [of e] by blast
  show ?thesis
    by (intro conjI 3 4 5 6 extract_scope_examples contains_iff first_at_iff)
qed

theorem extract_scope_marker_witness:
  "(\<nexists>xs ys. description users_endpoint = xs @ ''Scope:'' @ ys)
   \<and> extract_scope users_endpoint = []
   \<and> first_at ''Scope:'' 17 (description mid_scope)
   \<and> \<not> contains ''Scope:'' (drop (17 + 6) (description mid_scope))
   \<and> first_at ''<code>'' 1 (drop (17 + 6) (description mid_scope))
   \<and> first_at ''</code>'' 21 (drop (1 + 6) (drop (17 + 6) (description mid_scope)))
   \<and> CHR 0x0A \<notin> set (take 21 (drop (1 + 6) (drop (17 + 6) (description mid_scope))))
   \<and> extract_scope mid_scope = ''url:GET|/api/v1/users''
   \<and> first_at ''Scope:'' 7 (description twice_scope)
   \<and> first_at ''Scope:'' 10 (drop (7 + 6) (description twice_scope))
   \<and> extract_scope twice_scope = ''read all''"
proof -
  have "\<not> contains ''Scope:'' (description users_endpoint)"
    by code_simp
  then have a: "\<nexists>xs ys. description users_endpoint = xs @ ''Scope:'' @ ys"
    by (simp only: contains_iff not_False_eq_True)
  have a': "extract_scope users_endpoint = []"
    by (rule mp [OF extract_scope_marker [where e = users_endpoint,
        THEN conjunct2, THEN conjunct2, THEN conjunct1] a])
  let ?rest = "drop (17 + 6) (description mid_scope)"
  have b1: "first_at ''Scope:'' 17 (description mid_scope)"
    by code_simp
  have b2: "\<not> contains ''Scope:'' ?rest"
    by code_simp
  have b3: "first_at ''<code>'' 1 ?rest"
    by code_simp
  have b4: "first_at ''</code>'' 21 (drop (1 + 6) ?rest)"
    by code_simp
  have b5: "CHR 0x0A \<notin> set (take 21 (drop (1 + 6) ?rest))"
    by code_simp
  have b6: "take 21 (drop (1 + 6) ?rest) = ''url:GET|/api/v1/users''"
    by code_simp
  note t = extract_scope_marker [where k = 17 and e' = mid_scope and rest = ?rest
      and seg = ?rest and i = 1 and t = ?rest and n = 21]
  have b7: "search_code ?rest = Some (take 21 (drop (1 + 6) ?rest))"
    by (rule mp [OF t [THEN conjunct2, THEN conjunct2, THEN conjunct2, THEN conjunct2,
          THEN conjunct1] conjI [OF b3 conjI [OF b4 b5]]])
  have "extract_scope mid_scope =
          (case search_code ?rest of
             Some code \<Rightarrow> code
           | None \<Rightarrow>
               if CHR ''.'' \<in> set ?rest then py_strip (takeWhile (\<lambda>c. c \<noteq> CHR ''.'') ?rest)
               else if CHR 0x0A \<in> set ?rest
                 then py_strip (takeWhile (\<lambda>c. c \<noteq> CHR 0x0A) ?rest)
               else py_strip ?rest)"
    by (rule mp [OF t [THEN conjunct2, THEN conjunct2, THEN conjunct2, THEN conjunct1]
          conjI [OF b1 conjI [OF refl disjI1 [OF conjI [OF b2 refl]]]]])
  then have b8: "extract_scope mid_scope = ''url:GET|/api/v1/users''"
    by (simp only: b7 b6 option.case)
  let ?rest2 = "drop (7 + 6) (description twice_scope)"
  have c1: "first_at ''Scope:'' 7 (description twice_scope)"
    by code_simp
  have c2: "first_at ''Scope:'' 10 ?rest2"
    by code_simp
  have c3: "(case search_code (take 10 ?rest2) of
             Some code \<Rightarrow> code
           | None \<Rightarrow>
               if CHR ''.'' \<in> set (take 10 ?rest2)
                 then py_strip (takeWhile (\<lambda>c. c \<noteq> CHR ''.'') (take 10 ?rest2))
               else if CHR 0x0A \<in> set (take 10 ?rest2)
                 then py_strip (takeWhile (\<lambda>c. c \<noteq> CHR 0x0A) (take 10 ?rest2))
               else py_strip (take 10 ?rest2)) = ''read all''"
    by code_simp
  note t2 = extract_scope_marker [where k = 7 and e' = twice_scope and rest = ?rest2
      and seg = "take 10 ?rest2" and j = 10]
  have "extract_scope twice_scope =
          (case search_code (take 10 ?rest2) of
             Some code \<Rightarrow> code
           | None \<Rightarrow>
               if CHR ''.'' \<in> set (take 10 ?rest2)
                 then py_strip (takeWhile (\<lambda>c. c \<noteq> CHR ''.'') (take 10 ?rest2))
               else if CHR 0x0A \<in> set (take 10 ?rest2)
                 then py_strip (takeWhile (\<lambda>c. c \<noteq> CHR 0x0A) (take 10 ?rest2))
               else py_strip (take 10 ?rest2))"
    by (rule mp [OF t2 [THEN conjunct2, THEN conjunct2, THEN conjunct2, THEN conjunct1]
          conjI [OF c1 conjI [OF refl disjI2 [OF conjI [OF c2 refl]]]]])
  then have c4: "extract_scope twice_scope = ''read all''"
    by (simp only: c3)
  show ?thesis
    by (intro conjI a a' b1 b2 b3 b4 b5 b8 c1 c2 c4)
qed

text \<open>
  Claim C8, as stated, fails. \<open>extract_endpoint_from_section\<close>, the extractor whose records
  reach the tabular output, keeps a paragraph of 600 characters whole.
\<close>

theorem untruncated_counterexample:
  "parse_canvas_api_page long_html ''Users'' = [long_canvas_record]
   \<and> description long_canvas_record = long_text
   \<and> length long_text = 600
   \<and> length (description long_canvas_record) \<noteq> 503"
  by code_simp

text \<open>
  Claim C8, amended. \<open>parse_api_method\<close> returns the raw description cut by
  \<open>limit_description\<close>: a raw description of 600 characters becomes its first 500
  characters plus "..." (503 characters), and its tabular rendering is the first 200
  characters plus "...". \<open>extract_endpoint_from_section\<close> returns the stripped text of the
  paragraph uncut. The tabular projection renders every description longer than 200
  characters as its first 200 characters plus "..." and every other description
  unchanged, so a description of 600 characters is rendered as its first 200 characters
  plus "...", and no rendered description is longer than 203 characters.
\<close>

theorem description_truncation:
  "(parse_api_method soup el r = Inr (Some e) \<longrightarrow>
      (\<exists>d. raw_description soup el (get_text_strip (snd el)) (path e) = Inr d \<and>
           description e = limit_description d))
   \<and> (length d = 600 \<longrightarrow>
        limit_description d = take 500 d @ ''...'' \<and> length (limit_description d) = 503 \<and>
        row_description (csv_row_of (x\<lparr>description := limit_description d\<rparr>)) = take 200 d @ ''...'')
   \<and> (extract_endpoint_from_section soup' sec r' = Some c \<longrightarrow>
        (\<exists>h3. find_next soup' (fst sec) (is_named ''h3'') = Some h3 \<and>
           description c = (case find_next soup' (fst h3) (is_named ''p'') of
                              None \<Rightarrow> []
                            | Some p_tag \<Rightarrow> get_text_strip (snd p_tag))))
   \<and> (length (description y) = 600 \<longrightarrow>
        row_description (csv_row_of y) = take 200 (description y) @ ''...'')
   \<and> length (row_description (csv_row_of z)) \<le> 203
   \<and> row_description (csv_row_of z) =
       (if 200 < length (description z) then take 200 (description z) @ ''...''
        else description z)
   \<and> limit_description d' = (if 500 < length d' then take 500 d' @ ''...'' else d')"
proof -
  have 1: "parse_api_method soup el r = Inr (Some e) \<longrightarrow>
      (\<exists>d. raw_description soup el (get_text_strip (snd el)) (path e) = Inr d \<and>
           description e = limit_description d)"
    using parse_api_method_description by blast
  have 2: "length d = 600 \<longrightarrow>
        limit_description d = take 500 d @ ''...'' \<and> length (limit_description d) = 503 \<and>
        row_description (csv_row_of (x\<lparr>description := limit_description d\<rparr>)) = take 200 d @ ''...''"
    using limit_600 [of d] csv_after_limit [of d x] by blast
  have 3: "extract_endpoint_from_section soup' sec r' = Some c \<longrightarrow>
        (\<exists>h3. find_next soup' (fst sec) (is_named ''h3'') = Some h3 \<and>
           description c = (case find_next soup' (fst h3) (is_named ''p'') of
                              None \<Rightarrow> []
                            | Some p_tag \<Rightarrow> get_text_strip (snd p_tag)))"
    using extract_Some_h3 [of soup' sec r' c] by blast
  have 4: "length (description y) = 600 \<longrightarrow>
        row_description (csv_row_of y) = take 200 (description y) @ ''...''"
    using csv_600 by blast
  have 5: "row_description (csv_row_of z) =
       (if 200 < length (description z) then take 200 (description z) @ ''...''
        else description z)"
    by (simp add: csv_row_of_def)
  have 6: "limit_description d' = (if 500 < length d' then take 500 d' @ ''...'' else d')"
    by (simp add: limit_description_def)
  show ?thesis
    by (intro conjI 1 2 3 4 5 6 csv_description_bound)
qed

theorem description_truncation_witness:
  "parse_api_method (BeautifulSoup long_method_html) ([0, 0], long_heading) ''Users''
     = Inr (Some long_method_record)
   \<and> raw_description (BeautifulSoup long_method_html) ([0, 0], long_heading)
        (get_text_strip (snd ([0, 0], long_heading))) (path long_method_record) = Inr long_text
   \<and> length long_text = 600
   \<and> description long_method_record = take 500 long_text @ ''...''
   \<and> length (description long_method_record) = 503
   \<and> row_description (csv_row_of long_method_record) = take 200 long_text @ ''...''
   \<and> extract_endpoint_from_section (BeautifulSoup long_html) ([0, 0, 0], link_heading) ''Users''
       = Some long_canvas_record
   \<and> find_next (BeautifulSoup long_html) (fst ([0, 0, 0], link_heading)) (is_named ''h3'')
       = Some ([0, 0, 1], users_h3)
   \<and> find_next (BeautifulSoup long_html) (fst ([0, 0, 1], users_h3)) (is_named ''p'')
       = Some ([0, 0, 2], Tag ''p'' [] [Text long_text])
   \<and> description long_canvas_record = get_text_strip (Tag ''p'' [] [Text long_text])
   \<and> description long_canvas_record = long_text
   \<and> row_description (csv_row_of long_canvas_record) = take 200 long_text @ ''...''
   \<and> length (row_description (csv_row_of long_canvas_record)) = 203
   \<and> row_description (csv_row_of canvas_record) = ''Lists users.''
   \<and> limit_description ''Lists users.'' = ''Lists users.''"
proof -
  have a: "parse_api_method (BeautifulSoup long_method_html) ([0, 0], long_heading) ''Users''
     = Inr (Some long_method_record)"
    by code_simp
  have b: "raw_description (BeautifulSoup long_method_html) ([0, 0], long_heading)
        (get_text_strip (snd ([0, 0], long_heading))) (path long_method_record) = Inr long_text"
    by code_simp
  have len: "length long_text = 600"
    by (simp add: long_text_def)
  have c: "extract_endpoint_from_section (BeautifulSoup long_html) ([0, 0, 0], link_heading) ''Users''
       = Some long_canvas_record"
    by code_simp
  have d: "description long_canvas_record = long_text"
    by (simp add: long_canvas_record_def)
  have f1: "find_next (BeautifulSoup long_html) (fst ([0, 0, 0], link_heading)) (is_named ''h3'')
       = Some ([0, 0, 1], users_h3)"
    by code_simp
  have f2: "find_next (BeautifulSoup long_html) (fst ([0, 0, 1], users_h3)) (is_named ''p'')
       = Some ([0, 0, 2], Tag ''p'' [] [Text long_text])"
    by code_simp
  note t = description_truncation [of "BeautifulSoup long_method_html" "([0, 0], long_heading)"
      "''Users''" long_method_record long_text long_method_record
      "BeautifulSoup long_html" "([0, 0, 0], link_heading)" "''Users''" long_canvas_record
      long_canvas_record long_canvas_record]
  from mp [OF t [THEN conjunct1] a] b
  have e: "description long_method_record = limit_description long_text"
    by auto
  note l = mp [OF t [THEN conjunct2, THEN conjunct1] len]
  have f: "description long_method_record = take 500 long_text @ ''...''"
    using e l by simp
  have f': "length (description long_method_record) = 503"
    unfolding e by (rule l [THEN conjunct2, THEN conjunct1])
  have "long_method_record\<lparr>description := limit_description long_text\<rparr> = long_method_record"
    unfolding e [symmetric] by simp
  with l have g: "row_description (csv_row_of long_method_record) = take 200 long_text @ ''...''"
    by (simp only:)
  from mp [OF t [THEN conjunct2, THEN conjunct2, THEN conjunct1] c] f1 f2
  have k: "description long_canvas_record = get_text_strip (Tag ''p'' [] [Text long_text])"
    by auto
  have h: "row_description (csv_row_of long_canvas_record) = take 200 long_text @ ''...''"
    using mp [OF t [THEN conjunct2, THEN conjunct2, THEN conjunct2, THEN conjunct1]] d len
    by simp
  have h': "length (row_description (csv_row_of long_canvas_record)) = 203"
    using h len by simp
  have short: "\<not> 200 < length (description canvas_record)"
    by (simp add: canvas_record_def)
  note u = description_truncation [where z = canvas_record and d' = "''Lists users.''"]
  have m: "row_description (csv_row_of canvas_record) = ''Lists users.''"
    using u [THEN conjunct2, THEN conjunct2, THEN conjunct2, THEN conjunct2, THEN conjunct2,
        THEN conjunct1] short
    by (simp add: canvas_record_def)
  have m': "limit_description ''Lists users.'' = ''Lists users.''"
    using u [THEN conjunct2, THEN conjunct2, THEN conjunct2, THEN conjunct2, THEN conjunct2,
        THEN conjunct2]
    by simp
  show ?thesis
    by (intro conjI a b len c d f f' f1 f2 g h h' k m m')
qed

section \<open>Document order\<close>

lemma positions_below:
  "(q, n) \<in> set (document_order p node) \<Longrightarrow> prefix p q"
  "(q, n) \<in> set (children_order p i cs) \<Longrightarrow> \<exists>j\<ge>i. prefix (p @ [j]) q"
proof (induction p node and p i cs arbitrary: q n and q n rule: document_order_children_order.induct)
  case (1 p s)
  then show ?case by simp
next
  case (2 p s)
  then show ?case by simp
next
  case (3 p nm attrs cs)
  then show ?case by (fastforce dest: append_prefixD)
next
  case (4 p i)
  then show ?case by simp
next
  case (5 p i c cs)
  from "5.prems" consider "(q, n) \<in> set (document_order (p @ [i]) c)"
    | "(q, n) \<in> set (children_order p (Suc i) cs)" by auto
  then show ?case
  proof cases
    case 1
    then have "prefix (p @ [i]) q" by (rule "5.IH"(1))
    then show ?thesis by blast
  next
    case 2
    then obtain j where "Suc i \<le> j" "prefix (p @ [j]) q" using "5.IH"(2) by blast
    then show ?thesis by (auto intro: exI [of _ j])
  qed
qed

lemma sibling_prefix_clash:
  "prefix (p @ [i]) q \<Longrightarrow> prefix (p @ [j]) q \<Longrightarrow> i = j"
  by (auto simp: prefix_def append_eq_append_conv2 Cons_eq_append_conv)

lemma positions_distinct:
  "distinct (map fst (document_order p node))"
  "distinct (map fst (children_order p i cs))"
proof (induction p node and p i cs rule: document_order_children_order.induct)
  case (1 p s)
  show ?case by simp
next
  case (2 p s)
  show ?case by simp
next
  case (3 p nm attrs cs)
  have "p \<notin> fst ` set (children_order p 0 cs)"
  proof
    assume "p \<in> fst ` set (children_order p 0 cs)"
    then obtain n where "(p, n) \<in> set (children_order p 0 cs)" by auto
    then obtain j where "prefix (p @ [j]) p" using positions_below(2) by blast
    then show False by (auto simp: prefix_def)
  qed
  with 3 show ?case by simp
next
  case (4 p i)
  show ?case by simp
next
  case (5 p i c cs)
  have "fst ` set (document_order (p @ [i]) c) \<inter> fst ` set (children_order p (Suc i) cs) = {}"
  proof (rule ccontr)
    assume "\<not> ?thesis"
    then obtain q n n' where a: "(q, n) \<in> set (document_order (p @ [i]) c)"
      and b: "(q, n') \<in> set (children_order p (Suc i) cs)" by auto
    from a have "prefix (p @ [i]) q" by (rule positions_below(1))
    moreover from b obtain j where "Suc i \<le> j" "prefix (p @ [j]) q"
      using positions_below(2) by blast
    ultimately show False using sibling_prefix_clash by fastforce
  qed
  with 5 show ?case by simp
qed

lemma next_elements_after:
  assumes "(p, n) \<in> set (document_order [] soup)"
  shows "document_order [] soup =
           takeWhile (\<lambda>e. fst e \<noteq> p) (document_order [] soup) @ (p, n) # next_elements soup p"
proof -
  let ?doc = "document_order [] soup"
  let ?P = "\<lambda>e. fst e \<noteq> p"
  from assms have ne: "dropWhile ?P ?doc \<noteq> []"
    by (force simp: dropWhile_eq_Nil_conv)
  then obtain x xs where x: "dropWhile ?P ?doc = x # xs" by (cases "dropWhile ?P ?doc") auto
  then have "fst x = p" using hd_dropWhile [OF ne] by simp
  moreover have "x \<in> set ?doc" using x set_dropWhileD [of x ?P ?doc] by simp
  ultimately have "x = (p, n)"
    using assms positions_distinct(1) [of "[]" soup] eq_key_imp_eq_value [of ?doc p "snd x" n]
    by (cases x) auto
  with x have "dropWhile ?P ?doc = (p, n) # next_elements soup p"
    by (simp add: next_elements_def)
  then show ?thesis
    by (metis takeWhile_dropWhile_id)
qed

lemma find_Some_append:
  "List.find P xs = Some x \<longleftrightarrow> (\<exists>ys zs. xs = ys @ x # zs \<and> P x \<and> (\<forall>y\<in>set ys. \<not> P y))"
proof (induction xs)
  case Nil
  show ?case by simp
next
  case (Cons a xs)
  show ?case
  proof (cases "P a")
    case True
    then show ?thesis
      by (auto simp: Cons_eq_append_conv)
  next
    case False
    have "(\<exists>ys zs. a # xs = ys @ x # zs \<and> P x \<and> (\<forall>y\<in>set ys. \<not> P y)) \<longleftrightarrow>
          (\<exists>ys zs. xs = ys @ x # zs \<and> P x \<and> (\<forall>y\<in>set ys. \<not> P y))"
      using False by (auto simp: Cons_eq_append_conv) (metis set_ConsD)+
    with False Cons.IH show ?thesis by simp
  qed
qed

lemma find_next_Some:
  "find_next soup p test = Some x \<longleftrightarrow>
     (\<exists>ys zs. next_elements soup p = ys @ x # zs \<and> test (snd x) \<and> (\<forall>y\<in>set ys. \<not> test (snd y)))"
  by (simp add: find_next_def find_Some_append)

lemma find_next_None:
  "find_next soup p test = None \<longleftrightarrow> (\<forall>y\<in>set (next_elements soup p). \<not> test (snd y))"
  by (auto simp: find_next_def find_None_iff)

lemma select_in_document:
  "sec \<in> set (select_div_div_h2 soup) \<Longrightarrow> sec \<in> set (document_order [] soup)"
  by (simp add: select_div_div_h2_def)

text \<open>
  Claim C10. The method and path, the parameter table and the example blocks of a record
  are the first matches of \<open>find_next\<close> from the heading. The search covers exactly the
  elements after the heading in document order, up to the end of the document, whatever
  section they are in. In the first sample page the first heading has a link and no \<open>h3\<close>
  of its own; its record gets the method, path, parameters and example of the next
  endpoint.
\<close>

theorem forward_search_unbounded:
  "(extract_endpoint_from_section soup sec r = Some e \<longrightarrow>
      (\<exists>h3. find_next soup (fst sec) (is_named ''h3'') = Some h3 \<and>
           match_http_path (get_text_strip (snd h3)) = Some (http_method e, path e)) \<and>
      parameters e = (case find_next soup (fst sec) (is_named ''table'') of
                        None \<Rightarrow> []
                      | Some t \<Rightarrow> param_rows (drop 1 (find_all (snd t) ''tr''))) \<and>
      example_request e = find_example soup (fst sec) ''Example Request'' \<and>
      example_response e = find_example soup (fst sec) ''Example Response'')
   \<and> find_next soup p test = List.find (\<lambda>x. test (snd x)) (next_elements soup p)
   \<and> suffix (next_elements soup p) (document_order [] soup)
   \<and> section_name shadowed_heading = ''Show a user''
   \<and> find_tag shadowed_heading ''h3'' = None
   \<and> parse_canvas_api_page shadow_html ''Users''
       = [shadow_record\<lparr>name := ''Show a user''\<rparr>, shadow_record]
   \<and> http_method shadow_record = ''GET'' \<and> path shadow_record = ''/api/v1/users''
   \<and> parameters shadow_record = two_params
   \<and> (sec' \<in> set (select_div_div_h2 soup') \<longrightarrow> sec' \<in> set (document_order [] soup'))
   \<and> distinct (map fst (document_order [] soup'))
   \<and> ((q, n) \<in> set (document_order [] soup') \<longrightarrow>
        (\<exists>before. document_order [] soup' = before @ (q, n) # next_elements soup' q))
   \<and> (find_next soup p test = Some x \<longleftrightarrow>
        (\<exists>ys zs. next_elements soup p = ys @ x # zs \<and> test (snd x) \<and>
                 (\<forall>y\<in>set ys. \<not> test (snd y))))
   \<and> (find_next soup p test = None \<longleftrightarrow> (\<forall>y\<in>set (next_elements soup p). \<not> test (snd y)))"
proof -
  have 1: "extract_endpoint_from_section soup sec r = Some e \<longrightarrow>
      (\<exists>h3. find_next soup (fst sec) (is_named ''h3'') = Some h3 \<and>
           match_http_path (get_text_strip (snd h3)) = Some (http_method e, path e)) \<and>
      parameters e = (case find_next soup (fst sec) (is_named ''table'') of
                        None \<Rightarrow> []
                      | Some t \<Rightarrow> param_rows (drop 1 (find_all (snd t) ''tr''))) \<and>
      example_request e = find_example soup (fst sec) ''Example Request'' \<and>
      example_response e = find_example soup (fst sec) ''Example Response''"
    using extract_Some_h3 [of soup sec r e] extract_Some_fields [of soup sec r e] by blast
  have 2: "section_name shadowed_heading = ''Show a user''"
    by code_simp
  have 3: "find_tag shadowed_heading ''h3'' = None"
    by code_simp
  have 4: "parse_canvas_api_page shadow_html ''Users''
       = [shadow_record\<lparr>name := ''Show a user''\<rparr>, shadow_record]"
    by code_simp
  have 5: "http_method shadow_record = ''GET''" "path shadow_record = ''/api/v1/users''"
      "parameters shadow_record = two_params"
    by (simp_all add: shadow_record_def canvas_record_def)
  have 6: "find_next soup p test = List.find (\<lambda>x. test (snd x)) (next_elements soup p)"
    by (simp add: find_next_def)
  have 7: "sec' \<in> set (select_div_div_h2 soup') \<longrightarrow> sec' \<in> set (document_order [] soup')"
    using select_in_document by blast
  have 8: "(q, n) \<in> set (document_order [] soup') \<longrightarrow>
        (\<exists>before. document_order [] soup' = before @ (q, n) # next_elements soup' q)"
    using next_elements_after [of q n soup'] by blast
  show ?thesis
    by (intro conjI 1 2 3 4 5 6 7 8 next_elements_suffix positions_distinct(1)
        find_next_Some find_next_None)
qed

theorem forward_search_unbounded_witness:
  "extract_endpoint_from_section (BeautifulSoup shadow_html) ([0, 0, 0], shadowed_heading) ''Users''
     = Some (shadow_record\<lparr>name := ''Show a user''\<rparr>)
   \<and> select_div_div_h2 (BeautifulSoup shadow_html)
       = [([0, 0, 0], shadowed_heading), ([0, 0, 1], link_heading)]
   \<and> find_next (BeautifulSoup shadow_html) [0, 0, 0] (is_named ''h3'') = Some ([0, 0, 2], users_h3)
   \<and> find_next (BeautifulSoup shadow_html) [0, 0, 1] (is_named ''h3'') = Some ([0, 0, 2], users_h3)
   \<and> find_next (BeautifulSoup shadow_html) [0, 0, 0] (is_named ''table'')
       = Some ([0, 0, 4], users_table)
   \<and> find_next (BeautifulSoup shadow_html) [0, 0, 1] (is_named ''table'')
       = Some ([0, 0, 4], users_table)
   \<and> (\<exists>h3. find_next (BeautifulSoup shadow_html) (fst ([0, 0, 0], shadowed_heading))
              (is_named ''h3'') = Some h3 \<and>
            match_http_path (get_text_strip (snd h3)) =
              Some (http_method (shadow_record\<lparr>name := ''Show a user''\<rparr>),
                    path (shadow_record\<lparr>name := ''Show a user''\<rparr>)))
   \<and> ([0, 0, 3], link_heading) \<in> set (select_div_div_h2 (BeautifulSoup two_section_html))
   \<and> ([0, 0, 3], link_heading) \<in> set (document_order [] (BeautifulSoup two_section_html))
   \<and> (\<exists>before. document_order [] (BeautifulSoup two_section_html) =
         before @ ([0, 0, 3], link_heading) # next_elements (BeautifulSoup two_section_html) [0, 0, 3])
   \<and> map fst (next_elements (BeautifulSoup two_section_html) [0, 0, 3])
       = [[0, 0, 3, 0], [0, 0, 3, 0, 0], [0, 0, 4], [0, 0, 4, 0], [0, 0, 5], [0, 0, 5, 0]]
   \<and> find_next (BeautifulSoup two_section_html) [0, 0, 0] (is_named ''h3'') = Some ([0, 0, 1], show_h3)
   \<and> find_next (BeautifulSoup two_section_html) [0, 0, 3] (is_named ''h3'') = Some ([0, 0, 4], users_h3)
   \<and> parse_canvas_api_page two_section_html ''Users''
       = [show_record, canvas_record\<lparr>parameters := []\<rparr>]"
proof -
  have a: "extract_endpoint_from_section (BeautifulSoup shadow_html) ([0, 0, 0], shadowed_heading)
      ''Users'' = Some (shadow_record\<lparr>name := ''Show a user''\<rparr>)"
    by code_simp
  have s: "select_div_div_h2 (BeautifulSoup shadow_html)
       = [([0, 0, 0], shadowed_heading), ([0, 0, 1], link_heading)]"
    by code_simp
  have b: "find_next (BeautifulSoup shadow_html) [0, 0, 0] (is_named ''h3'') = Some ([0, 0, 2], users_h3)"
    by code_simp
  have c: "find_next (BeautifulSoup shadow_html) [0, 0, 1] (is_named ''h3'') = Some ([0, 0, 2], users_h3)"
    by code_simp
  have b': "find_next (BeautifulSoup shadow_html) [0, 0, 0] (is_named ''table'')
       = Some ([0, 0, 4], users_table)"
    by code_simp
  have c': "find_next (BeautifulSoup shadow_html) [0, 0, 1] (is_named ''table'')
       = Some ([0, 0, 4], users_table)"
    by code_simp
  note t = forward_search_unbounded [where soup = "BeautifulSoup shadow_html"
      and sec = "([0, 0, 0], shadowed_heading)" and r = "''Users''"
      and e = "shadow_record\<lparr>name := ''Show a user''\<rparr>"
      and sec' = "([0, 0, 3], link_heading)" and soup' = "BeautifulSoup two_section_html"
      and q = "[0, 0, 3]" and n = link_heading]
  have d: "\<exists>h3. find_next (BeautifulSoup shadow_html) (fst ([0, 0, 0], shadowed_heading))
              (is_named ''h3'') = Some h3 \<and>
            match_http_path (get_text_strip (snd h3)) =
              Some (http_method (shadow_record\<lparr>name := ''Show a user''\<rparr>),
                    path (shadow_record\<lparr>name := ''Show a user''\<rparr>))"
    by (rule mp [OF t [THEN conjunct1] a, THEN conjunct1])
  have g: "([0, 0, 3], link_heading) \<in> set (select_div_div_h2 (BeautifulSoup two_section_html))"
    by code_simp
  note t' = t [THEN conjunct2, THEN conjunct2, THEN conjunct2, THEN conjunct2, THEN conjunct2,
      THEN conjunct2, THEN conjunct2, THEN conjunct2, THEN conjunct2]
  have g1: "([0, 0, 3], link_heading) \<in> set (document_order [] (BeautifulSoup two_section_html))"
    by (rule mp [OF t' [THEN conjunct1] g])
  have g2: "\<exists>before. document_order [] (BeautifulSoup two_section_html) =
         before @ ([0, 0, 3], link_heading) # next_elements (BeautifulSoup two_section_html) [0, 0, 3]"
    by (rule mp [OF t' [THEN conjunct2, THEN conjunct2, THEN conjunct1] g1])
  have g3: "map fst (next_elements (BeautifulSoup two_section_html) [0, 0, 3])
       = [[0, 0, 3, 0], [0, 0, 3, 0, 0], [0, 0, 4], [0, 0, 4, 0], [0, 0, 5], [0, 0, 5, 0]]"
    by code_simp
  have g4: "find_next (BeautifulSoup two_section_html) [0, 0, 0] (is_named ''h3'')
      = Some ([0, 0, 1], show_h3)"
    by code_simp
  have g5: "find_next (BeautifulSoup two_section_html) [0, 0, 3] (is_named ''h3'')
      = Some ([0, 0, 4], users_h3)"
    by code_simp
  have g6: "parse_canvas_api_page two_section_html ''Users''
       = [show_record, canvas_record\<lparr>parameters := []\<rparr>]"
    by code_simp
  show ?thesis
    by (intro conjI a s b c b' c' d g g1 g2 g3 g4 g5 g6)
qed

end
